theory Spec2Isabelle
  imports Main "HOL-Library.Sublist" "HOL-Library.Char_ord" "HOL-Library.List_Lexorder"
begin

section \<open>Strings of the language server\<close>

text \<open>
  A JavaScript string is modelled as a \<open>string\<close>: a list of code units, here the code units
  \<open>U+0000\<close> to \<open>U+00FF\<close>. \<open>length\<close> is JavaScript's \<open>.length\<close>, \<open>take\<close>/\<open>drop\<close> give
  \<open>slice\<close>, and the default \<open>Array.prototype.sort\<close> (code-unit order) is \<open>sort\<close> at the
  lexicographic order of \<open>char list\<close>.
\<close>

abbreviation LF :: char where "LF \<equiv> CHR 0x0A"
abbreviation CR :: char where "CR \<equiv> CHR 0x0D"
abbreviation BACKSLASH :: char where "BACKSLASH \<equiv> CHR 0x5C"
abbreviation SQUOTE :: char where "SQUOTE \<equiv> CHR 0x27"
abbreviation DQUOTE :: char where "DQUOTE \<equiv> CHR 0x22"
abbreviation BACKTICK :: char where "BACKTICK \<equiv> CHR 0x60"

text \<open>\<open>Math.min(Math.max(offset, 0), text.length)\<close>, as every function of the server clamps.\<close>

definition clamp_offset :: "string \<Rightarrow> int \<Rightarrow> nat" where
  "clamp_offset text offset = nat (min (max offset 0) (int (length text)))"

text \<open>\<open>s.slice(a, b)\<close> for \<open>0 \<le> a\<close> and \<open>0 \<le> b\<close>.\<close>

definition slice :: "string \<Rightarrow> nat \<Rightarrow> nat \<Rightarrow> string" where
  "slice s a b = take (b - a) (drop a s)"

section \<open>Offset/position converter (server.ts)\<close>

text \<open>
  \<open>text.split(/\r?\n/)\<close>: the separator is a line feed, together with the carriage return
  right before it when there is one. The result is never empty.
\<close>

fun cons_first :: "char \<Rightarrow> string list \<Rightarrow> string list" where
  "cons_first c [] = [[c]]"
| "cons_first c (l # ls) = (c # l) # ls"

fun split_lines :: "string \<Rightarrow> string list" where
  "split_lines [] = [[]]"
| "split_lines [c] = (if c = LF then [[], []] else [[c]])"
| "split_lines (c # d # cs) =
     (if c = CR \<and> d = LF then [] # split_lines cs
      else if c = LF then [] # split_lines (d # cs)
      else cons_first c (split_lines (d # cs)))"

record position =
  line :: nat
  character :: nat

text \<open>\<open>lines[i] || ""\<close>: a line index out of range reads as the empty string.\<close>

definition line_or_empty :: "string list \<Rightarrow> nat \<Rightarrow> string" where
  "line_or_empty lines i = (if i < length lines then lines ! i else [])"

definition positionToOffset :: "string \<Rightarrow> position \<Rightarrow> nat" where
  "positionToOffset text pos =
     (let lines = split_lines text;
          offset = foldl (\<lambda>offset i. offset + (length (line_or_empty lines i) + 1)) 0 [0..<line pos]
      in offset + character pos)"

definition offsetToPosition :: "string \<Rightarrow> int \<Rightarrow> position" where
  "offsetToPosition text offset =
     (let clamped = clamp_offset text offset;
          before = slice text 0 clamped;
          parts = split_lines before
      in \<lparr>line = length parts - 1, character = length (last parts)\<rparr>)"

text \<open>
  The number of characters that a list of lines covers when one character separates two
  lines; the vocabulary of the round trip below.
\<close>

definition covered :: "string list \<Rightarrow> nat" where
  "covered S = sum_list (map (\<lambda>l. length l + 1) (butlast S)) + length (last S)"

section \<open>Lexical context classifier (cm\_engine.ts)\<close>

datatype QuoteChar = Sq | Dq | Bt

fun quote_char :: "QuoteChar \<Rightarrow> char" where
  "quote_char Sq = SQUOTE"
| "quote_char Dq = DQUOTE"
| "quote_char Bt = BACKTICK"

definition quote_of_char :: "char \<Rightarrow> QuoteChar option" where
  "quote_of_char ch =
     (if ch = SQUOTE then Some Sq else if ch = DQUOTE then Some Dq
      else if ch = BACKTICK then Some Bt else None)"

text \<open>The loop state of \<open>isInsideString\<close>: \<open>inQuote\<close> and \<open>escaped\<close>.\<close>

type_synonym scan_state = "QuoteChar option \<times> bool"

text \<open>One iteration of the loop body on the character \<open>ch\<close>, branch by branch.\<close>

fun scan_step :: "scan_state \<Rightarrow> char \<Rightarrow> scan_state" where
  "scan_step (inQuote, escaped) ch =
     (if escaped then (inQuote, False)
      else if ch = BACKSLASH then (inQuote, True)
      else if quote_of_char ch \<noteq> None \<and> inQuote = None then (quote_of_char ch, escaped)
      else if quote_of_char ch \<noteq> None \<and> inQuote = quote_of_char ch then (None, escaped)
      else if ch = LF \<and> (inQuote = Some Sq \<or> inQuote = Some Dq) then (None, False)
      else (inQuote, escaped))"

definition scan_prefix :: "string \<Rightarrow> nat \<Rightarrow> scan_state" where
  "scan_prefix text n = foldl scan_step (None, False) (take n text)"

definition isInsideString :: "string \<Rightarrow> int \<Rightarrow> bool" where
  "isInsideString text cursorOffset =
     (let clamped = clamp_offset text cursorOffset
      in fst (scan_prefix text clamped) \<noteq> None)"

text \<open>
  The vocabulary of the property: the quote kind that is open after \<open>n\<close> characters, and
  whether the character at index \<open>n\<close> is escaped, that is, whether an odd number of
  backslashes stands right before it.
\<close>

definition open_quote :: "string \<Rightarrow> nat \<Rightarrow> QuoteChar option" where
  "open_quote text n = fst (scan_prefix text n)"

definition escaped_at :: "string \<Rightarrow> nat \<Rightarrow> bool" where
  "escaped_at text n = odd (length (takeWhile (\<lambda>c. c = BACKSLASH) (rev (take n text))))"

section \<open>Quote rewriter (server.ts)\<close>

text \<open>
  \<open>s.replace(/pat/g, rep)\<close> for a pattern that is a literal, non-empty sequence of
  characters: the occurrences are replaced from left to right, without overlap.
\<close>

fun replace_all :: "string \<Rightarrow> string \<Rightarrow> string \<Rightarrow> string" where
  "replace_all pat rep [] = []"
| "replace_all pat rep (c # cs) =
     (if pat \<noteq> [] \<and> prefix pat (c # cs)
      then rep @ replace_all pat rep (drop (length pat) (c # cs))
      else c # replace_all pat rep cs)"

definition rewriteLiteralContent :: "string \<Rightarrow> QuoteChar \<Rightarrow> QuoteChar \<Rightarrow> string option" where
  "rewriteLiteralContent content from_q to_q =
     (let out = content;
          out = (if from_q = Sq \<and> to_q \<noteq> Sq then replace_all [BACKSLASH, SQUOTE] [SQUOTE] out else out);
          out = (if from_q = Dq \<and> to_q \<noteq> Dq then replace_all [BACKSLASH, DQUOTE] [DQUOTE] out else out);
          out = (if from_q = Bt \<and> to_q \<noteq> Bt then replace_all [BACKSLASH, BACKTICK] [BACKTICK] out else out)
      in if to_q = Dq then
           (let out = replace_all [BACKSLASH] [BACKSLASH, BACKSLASH] out;
                out = replace_all [DQUOTE] [BACKSLASH, DQUOTE] out
            in if LF \<in> set out then None else Some out)
         else if to_q = Bt then
           (let out = replace_all [BACKSLASH] [BACKSLASH, BACKSLASH] out;
                out = replace_all [BACKTICK] [BACKSLASH, BACKTICK] out;
                out = replace_all ''${'' (BACKSLASH # ''${'') out
            in Some out)
         else
           (let out = replace_all [BACKSLASH] [BACKSLASH, BACKSLASH] out;
                out = replace_all [SQUOTE] [BACKSLASH, SQUOTE] out
            in if LF \<in> set out then None else Some out))"

text \<open>
  The rewriter as the specification words it: first un-escape the quote of the source kind
  when the target kind differs, then re-escape backslashes and the target delimiter (and
  the interpolation start for a block-quote target); a single- or double-quote target
  rejects a result that holds a line feed.
\<close>

definition unescape_source_quote :: "QuoteChar \<Rightarrow> QuoteChar \<Rightarrow> string \<Rightarrow> string" where
  "unescape_source_quote from_q to_q s =
     (if from_q \<noteq> to_q then replace_all [BACKSLASH, quote_char from_q] [quote_char from_q] s else s)"

definition reescape_for_target :: "QuoteChar \<Rightarrow> string \<Rightarrow> string" where
  "reescape_for_target to_q s =
     (let out = replace_all [quote_char to_q] [BACKSLASH, quote_char to_q]
                  (replace_all [BACKSLASH] [BACKSLASH, BACKSLASH] s)
      in if to_q = Bt then replace_all ''${'' (BACKSLASH # ''${'') out else out)"

definition rewrite_spec :: "string \<Rightarrow> QuoteChar \<Rightarrow> QuoteChar \<Rightarrow> string option" where
  "rewrite_spec content from_q to_q =
     (let out = reescape_for_target to_q (unescape_source_quote from_q to_q content)
      in if to_q \<noteq> Bt \<and> LF \<in> set out then None else Some out)"

section \<open>Sample index and server state (server.ts)\<close>

text \<open>\<open>key.split("_")\<close>: the segments between the separators; never empty.\<close>

fun split_on :: "char \<Rightarrow> string \<Rightarrow> string list" where
  "split_on sep [] = [[]]"
| "split_on sep (c # cs) =
     (if c = sep then [] # split_on sep cs else cons_first c (split_on sep cs))"

record SampleIndex =
  soundNames :: "string list"
  banks :: "string list"

text \<open>
  \<open>const [bank, suffix] = key.split("_")\<close> takes the first two segments; \<open>suffix\<close> is
  \<open>undefined\<close> when there is one segment only. The set of banks is listed and sorted.
\<close>

definition bank_of_key :: "string \<Rightarrow> string option" where
  "bank_of_key key =
     (case split_on (CHR ''_'') key of
        bank # suffix' # _ \<Rightarrow> if suffix' \<noteq> [] \<and> bank \<noteq> [] then Some bank else None
      | _ \<Rightarrow> None)"

definition deriveBanksFromSounds :: "string list \<Rightarrow> string list" where
  "deriveBanksFromSounds names = sort (remdups (List.map_filter bank_of_key names))"

text \<open>
  A notification payload: any JSON value (\<open>undefined\<close> when the payload is absent). An
  object is the list of its properties, every key once.
\<close>

datatype json =
  JUndefined | JNull | JBool bool | JNum int | JStr string
| JArr "json list" | JObj "(string \<times> json) list"

text \<open>\<open>!payload\<close> and \<open>typeof payload === "object"\<close>.\<close>

fun falsy :: "json \<Rightarrow> bool" where
  "falsy JUndefined = True"
| "falsy JNull = True"
| "falsy (JBool b) = (\<not> b)"
| "falsy (JNum n) = (n = 0)"
| "falsy (JStr s) = (s = [])"
| "falsy (JArr xs) = False"
| "falsy (JObj kvs) = False"

fun typeof_object :: "json \<Rightarrow> bool" where
  "typeof_object JNull = True"
| "typeof_object (JArr xs) = True"
| "typeof_object (JObj kvs) = True"
| "typeof_object j = False"

text \<open>\<open>payload.soundNames\<close>: the property of an object, \<open>undefined\<close> on anything else.\<close>

fun get_soundNames :: "json \<Rightarrow> json" where
  "get_soundNames (JObj kvs) = (case map_of kvs ''soundNames'' of Some v \<Rightarrow> v | None \<Rightarrow> JUndefined)"
| "get_soundNames j = JUndefined"

text \<open>The filter \<open>typeof s === "string" && s\<close> keeps the non-empty strings.\<close>

fun nonempty_string :: "json \<Rightarrow> string option" where
  "nonempty_string (JStr s) = (if s \<noteq> [] then Some s else None)"
| "nonempty_string j = None"

type_synonym uri = string

record TextDocument =
  uri :: uri
  version :: int
  getText :: string

record Diagnostic =
  severity :: nat
  message :: string
  range_start :: position
  range_end :: position
  source :: string

text \<open>
  The state of the server that the handlers below read and write: the open documents, the
  two maps of the scheduler, the diagnostics sent so far (\<open>connection.sendDiagnostics\<close>, the
  latest last) and the sample index.
\<close>

record server_state =
  documents :: "uri \<rightharpoonup> TextDocument"
  lastKnownVersionByUri :: "uri \<rightharpoonup> int"
  debounceTimersByUri :: "uri \<rightharpoonup> nat"
  published :: "(uri \<times> Diagnostic list) list"
  sampleIndex :: SampleIndex

text \<open>The handler of the notification \<open>strudel/samples\<close>.\<close>

definition onSamplesNotification :: "server_state \<Rightarrow> json \<Rightarrow> server_state" where
  "onSamplesNotification st payload =
     (if falsy payload \<or> \<not> typeof_object payload then st
      else
        let names = (case get_soundNames payload of
                       JArr xs \<Rightarrow> List.map_filter nonempty_string xs
                     | _ \<Rightarrow> []);
            sortedSoundNames = sort names
        in st\<lparr>sampleIndex :=
               \<lparr>soundNames = sortedSoundNames, banks = deriveBanksFromSounds sortedSoundNames\<rparr>\<rparr>)"

section \<open>Debounced diagnostics scheduler (server.ts)\<close>

text \<open>
  What \<open>parse\<close> throws: a value that is not an object, or an object with an optional string
  \<open>message\<close> and an optional \<open>loc\<close> whose \<open>line\<close> and \<open>column\<close> are numbers.
\<close>

datatype js_error = NotAnObject | ErrorObject "string option" "(int \<times> int) option"

fun syntaxDiagnosticsFromError :: "js_error \<Rightarrow> Diagnostic list option" where
  "syntaxDiagnosticsFromError NotAnObject = None"
| "syntaxDiagnosticsFromError (ErrorObject None loc) = None"
| "syntaxDiagnosticsFromError (ErrorObject (Some msg) None) = None"
| "syntaxDiagnosticsFromError (ErrorObject (Some msg) (Some (l, c))) =
     (if msg = [] then None
      else
        let line = nat (max 0 (l - 1));
            character = nat (max 0 c)
        in Some [\<lparr>severity = 1, message = msg,
                   range_start = \<lparr>line = line, character = character\<rparr>,
                   range_end = \<lparr>line = line, character = character\<rparr>,
                   source = ''strudel''\<rparr>])"

definition sendDiagnostics :: "server_state \<Rightarrow> uri \<Rightarrow> Diagnostic list \<Rightarrow> server_state" where
  "sendDiagnostics st u ds = st\<lparr>published := published st @ [(u, ds)]\<rparr>"

text \<open>
  \<open>validateDocument\<close>, with the external parser as the parameter \<open>parse\<close> (\<open>None\<close>: the text
  parses; \<open>Some e\<close>: it throws \<open>e\<close>). The function has no suspension point, so it runs as one
  step on the state.
\<close>

definition validateDocument ::
  "(string \<Rightarrow> js_error option) \<Rightarrow> server_state \<Rightarrow> TextDocument \<Rightarrow> server_state" where
  "validateDocument parse st doc =
     (let u = uri doc; v = version doc; txt = getText doc
      in case parse txt of
           None \<Rightarrow>
             if lastKnownVersionByUri st u \<noteq> Some v then st
             else sendDiagnostics st u []
         | Some e \<Rightarrow>
             if lastKnownVersionByUri st u \<noteq> Some v then st
             else (case syntaxDiagnosticsFromError e of
                     Some diagnostics \<Rightarrow> sendDiagnostics st u diagnostics
                   | None \<Rightarrow> sendDiagnostics st u []))"

text \<open>
  \<open>scheduleValidation\<close> replaces the pending timer of the URI; the timer's callback is
  \<open>timer_fired\<close>. \<open>onDidChangeContent\<close> runs after the document store holds the new document.
\<close>

definition scheduleValidation :: "server_state \<Rightarrow> uri \<Rightarrow> nat \<Rightarrow> server_state" where
  "scheduleValidation st u delayMs = st\<lparr>debounceTimersByUri := (debounceTimersByUri st)(u \<mapsto> delayMs)\<rparr>"

definition timer_fired ::
  "(string \<Rightarrow> js_error option) \<Rightarrow> server_state \<Rightarrow> uri \<Rightarrow> server_state" where
  "timer_fired parse st u =
     (let st' = st\<lparr>debounceTimersByUri := (debounceTimersByUri st)(u := None)\<rparr>
      in case documents st' u of
           None \<Rightarrow> st'
         | Some doc \<Rightarrow> validateDocument parse st' doc)"

definition onDidChangeContent :: "server_state \<Rightarrow> TextDocument \<Rightarrow> server_state" where
  "onDidChangeContent st doc =
     (let st' = st\<lparr>documents := (documents st)(uri doc \<mapsto> doc),
                   lastKnownVersionByUri := (lastKnownVersionByUri st)(uri doc \<mapsto> version doc)\<rparr>
      in scheduleValidation st' (uri doc) 150)"

section \<open>Regular expressions (the fragment of RegExp that cm\_engine.ts uses)\<close>

text \<open>
  The patterns of the engine are built from character classes, sequence, alternation,
  the greedy star, the end anchor \<open>$\<close> (no \<open>m\<close> flag) and capturing groups; \<open>r?\<close> is
  \<open>Alt r Eps\<close> and a non-capturing group is the pattern itself.
\<close>

datatype regex =
    Atom "char \<Rightarrow> bool"
  | Eps
  | Eol
  | Seq regex regex
  | Alt regex regex
  | Star regex
  | Grp nat regex

type_synonym captures = "(nat \<times> string) list"

text \<open>
  The backtracking matcher. \<open>ms r s c\<close> lists, in the order in which backtracking tries
  them, the ways \<open>r\<close> can match at the start of \<open>s\<close>: what is left of \<open>s\<close>, and the captures.
  The star tries one more iteration before it tries to stop, and gives up an iteration that
  consumed nothing, as ECMAScript does.
\<close>

fun ms :: "regex \<Rightarrow> string \<Rightarrow> captures \<Rightarrow> (string \<times> captures) list" where
  "ms (Atom p) s c = (case s of [] \<Rightarrow> [] | x # xs \<Rightarrow> if p x then [(xs, c)] else [])"
| "ms Eps s c = [(s, c)]"
| "ms Eol s c = (if s = [] then [(s, c)] else [])"
| "ms (Seq r1 r2) s c = concat (map (\<lambda>(s', c'). ms r2 s' c') (ms r1 s c))"
| "ms (Alt r1 r2) s c = ms r1 s c @ ms r2 s c"
| "ms (Star r) s c =
     concat (map (\<lambda>(s', c'). if length s' < length s then ms (Star r) s' c' else []) (ms r s c))
     @ [(s, c)]"
| "ms (Grp n r) s c =
     map (\<lambda>(s', c'). (s', (n, take (length s - length s') s) # c')) (ms r s c)"

text \<open>
  What a pattern can consume, as a relation: \<open>accepts r s s'\<close> when \<open>r\<close> can match a prefix of
  \<open>s\<close> and leave \<open>s'\<close>. Every way the matcher finds is one of these (lemma \<open>ms_sound\<close> below).
\<close>

inductive accepts :: "regex \<Rightarrow> string \<Rightarrow> string \<Rightarrow> bool" where
  acc_Atom: "p x \<Longrightarrow> accepts (Atom p) (x # xs) xs"
| acc_Eps: "accepts Eps s s"
| acc_Eol: "accepts Eol [] []"
| acc_Seq: "accepts r1 s s1 \<Longrightarrow> accepts r2 s1 s2 \<Longrightarrow> accepts (Seq r1 r2) s s2"
| acc_Alt1: "accepts r1 s s' \<Longrightarrow> accepts (Alt r1 r2) s s'"
| acc_Alt2: "accepts r2 s s' \<Longrightarrow> accepts (Alt r1 r2) s s'"
| acc_Star0: "accepts (Star r) s s"
| acc_StarN: "accepts r s s1 \<Longrightarrow> accepts (Star r) s1 s2 \<Longrightarrow> accepts (Star r) s s2"
| acc_Grp: "accepts r s s' \<Longrightarrow> accepts (Grp n r) s s'"

inductive_cases accepts_AtomE: "accepts (Atom p) s s'"
inductive_cases accepts_EpsE: "accepts Eps s s'"
inductive_cases accepts_EolE: "accepts Eol s s'"
inductive_cases accepts_SeqE: "accepts (Seq r1 r2) s s'"

text \<open>A \<open>RegExpExecArray\<close>: \<open>m.index\<close>, \<open>m[0]\<close> and the groups \<open>m[1]\<close>, ...\<close>

record rmatch =
  index :: nat
  matched :: string
  groups :: captures

text \<open>The first way the pattern matches at position \<open>i\<close> of the input, if there is one.\<close>

definition match_at :: "regex \<Rightarrow> string \<Rightarrow> nat \<Rightarrow> rmatch option" where
  "match_at re input i =
     (case ms re (drop i input) [] of
        [] \<Rightarrow> None
      | (rest, caps) # _ \<Rightarrow>
          Some \<lparr>index = i, matched = take (length input - i - length rest) (drop i input),
                groups = caps\<rparr>)"

text \<open>
  \<open>re.exec(input)\<close> of a global pattern whose \<open>lastIndex\<close> is \<open>i\<close>: it fails beyond the end of
  the input, and otherwise returns the match at the first position from \<open>i\<close> on that has
  one. \<open>input.match(re)\<close> of a pattern without the \<open>g\<close> flag is \<open>exec\<close> from 0.
\<close>

function exec_from :: "regex \<Rightarrow> string \<Rightarrow> nat \<Rightarrow> rmatch option" where
  "exec_from re input i =
     (if length input < i then None
      else case match_at re input i of
             Some m \<Rightarrow> Some m
           | None \<Rightarrow> exec_from re input (Suc i))"
  by pat_completeness auto
termination
  by (relation "measure (\<lambda>(re, input, i). Suc (length input) - i)") auto

declare exec_from.simps [simp del]

definition string_match :: "string \<Rightarrow> regex \<Rightarrow> rmatch option" where
  "string_match input re = exec_from re input 0"

text \<open>
  \<open>m[n]\<close> for a group that took part in the match. Every group that the engine reads is on
  every path of its pattern; a group that did not take part reads as the empty string here.
\<close>

definition group :: "rmatch \<Rightarrow> nat \<Rightarrow> string" where
  "group m n = (case map_of (groups m) n of Some g \<Rightarrow> g | None \<Rightarrow> [])"

lemma match_at_bounds:
  "match_at re input i = Some m \<Longrightarrow> index m = i \<and> i + length (matched m) \<le> max i (length input)"
  by (auto simp: match_at_def split: list.splits)

lemma exec_from_bounds:
  "exec_from re input i = Some m \<Longrightarrow>
     i \<le> index m \<and> index m \<le> length input \<and> index m + length (matched m) \<le> length input"
proof (induction re input i rule: exec_from.induct)
  case (1 re input i)
  show ?case
  proof (cases "match_at re input i")
    case None
    with "1.prems" have le: "\<not> length input < i" and rec: "exec_from re input (Suc i) = Some m"
      by (auto simp: exec_from.simps [of re input i] split: if_splits)
    from "1.IH" [OF le None rec] show ?thesis by simp
  next
    case (Some m')
    with "1.prems" have "\<not> length input < i" and "m' = m"
      by (auto simp: exec_from.simps [of re input i] split: if_splits)
    with match_at_bounds [OF Some] show ?thesis by auto
  qed
qed

section \<open>Rightmost-match engine (cm\_engine.ts, makeContext)\<close>

text \<open>
  \<open>lastIndex\<close> after one round of the loop: \<open>exec\<close> leaves it at the end of the match, and the
  loop moves it one further after an empty match.
\<close>

definition next_lastIndex :: "rmatch \<Rightarrow> nat" where
  "next_lastIndex m =
     (if length (matched m) = 0 then index m + 1 else index m + length (matched m))"

lemma next_lastIndex_gt: "exec_from re input i = Some m \<Longrightarrow> i < next_lastIndex m"
  using exec_from_bounds [of re input i m] by (cases "matched m") (auto simp: next_lastIndex_def)

text \<open>
  The loop \<open>while ((m = globalRe.exec(windowText)))\<close>, with \<open>lastIndex\<close> and \<open>best\<close> as its
  state. It ends because \<open>lastIndex\<close> grows with every round and \<open>exec\<close> fails beyond the end.
\<close>

function matchBefore_loop :: "regex \<Rightarrow> string \<Rightarrow> nat \<Rightarrow> rmatch option \<Rightarrow> rmatch option" where
  "matchBefore_loop globalRe windowText lastIndex best =
     (case exec_from globalRe windowText lastIndex of
        None \<Rightarrow> best
      | Some m \<Rightarrow>
          matchBefore_loop globalRe windowText (next_lastIndex m)
            (if index m + length (matched m) = length windowText then Some m else best))"
  by pat_completeness auto
termination
proof (relation "measure (\<lambda>(re, w, i, b). Suc (length w) - i)")
  show "wf (measure (\<lambda>(re, w, i, b). Suc (length w) - i))"
    by simp
next
  fix globalRe windowText lastIndex and best :: "rmatch option" and m
  assume ex: "exec_from globalRe windowText lastIndex = Some m"
  from exec_from_bounds [OF ex] next_lastIndex_gt [OF ex]
  show "((globalRe, windowText, next_lastIndex m,
          if index m + length (matched m) = length windowText then Some m else best),
         (globalRe, windowText, lastIndex, best))
        \<in> measure (\<lambda>(re, w, i, b). Suc (length w) - i)"
    by auto
qed

declare matchBefore_loop.simps [simp del]

text \<open>What \<open>matchBefore\<close> returns: \<open>{ from, to, text }\<close>.\<close>

record span =
  from' :: nat
  to' :: nat
  text' :: string

record CompletionContext =
  explicit :: bool
  matchBefore :: "regex \<Rightarrow> span option"

definition matchBefore_in :: "nat \<Rightarrow> string \<Rightarrow> regex \<Rightarrow> span option" where
  "matchBefore_in windowFrom windowText re =
     (case matchBefore_loop re windowText 0 None of
        None \<Rightarrow> None
      | Some best \<Rightarrow>
          let matchText = matched best;
              from_offset = windowFrom + index best;
              end_offset = from_offset + length matchText
          in Some \<lparr>from' = from_offset, to' = end_offset, text' = matchText\<rparr>)"

definition makeContext_limit :: "string \<Rightarrow> int \<Rightarrow> bool \<Rightarrow> nat \<Rightarrow> CompletionContext" where
  "makeContext_limit text cursorOffset explicit_flag lookbehindLimit =
     (let to_offset = clamp_offset text cursorOffset;
          windowFrom = to_offset - lookbehindLimit;
          windowText = slice text windowFrom to_offset
      in \<lparr>explicit = explicit_flag, matchBefore = matchBefore_in windowFrom windowText\<rparr>)"

definition makeContext :: "string \<Rightarrow> int \<Rightarrow> bool \<Rightarrow> CompletionContext" where
  "makeContext text cursorOffset explicit_flag =
     makeContext_limit text cursorOffset explicit_flag 8192"

text \<open>
  The matches that the loop sees, in iteration order, from a given \<open>lastIndex\<close> on; the
  vocabulary of the rightmost-match property.
\<close>

function iteration_matches :: "regex \<Rightarrow> string \<Rightarrow> nat \<Rightarrow> rmatch list" where
  "iteration_matches re w lastIndex =
     (case exec_from re w lastIndex of
        None \<Rightarrow> []
      | Some m \<Rightarrow> m # iteration_matches re w (next_lastIndex m))"
  by pat_completeness auto
termination
proof (relation "measure (\<lambda>(re, w, i). Suc (length w) - i)")
  show "wf (measure (\<lambda>(re, w, i). Suc (length w) - i))"
    by simp
next
  fix re w lastIndex m
  assume ex: "exec_from re w lastIndex = Some m"
  from exec_from_bounds [OF ex] next_lastIndex_gt [OF ex]
  show "((re, w, next_lastIndex m), (re, w, lastIndex)) \<in> measure (\<lambda>(re, w, i). Suc (length w) - i)"
    by auto
qed

declare iteration_matches.simps [simp del]

definition ends_at_end :: "string \<Rightarrow> rmatch \<Rightarrow> bool" where
  "ends_at_end w m = (index m + length (matched m) = length w)"

definition span_of :: "nat \<Rightarrow> rmatch \<Rightarrow> span" where
  "span_of windowFrom m =
     \<lparr>from' = windowFrom + index m, to' = windowFrom + index m + length (matched m),
      text' = matched m\<rparr>"

definition last_hit :: "string \<Rightarrow> rmatch list \<Rightarrow> rmatch option" where
  "last_hit w xs =
     (case filter (ends_at_end w) xs of [] \<Rightarrow> None | h # hs \<Rightarrow> Some (last (h # hs)))"

section \<open>Completion handler chain (cm\_engine.ts)\<close>

subsection \<open>Character classes and patterns\<close>

text \<open>\<open>\s\<close> and \<open>\w\<close> on the code units \<open>U+0000\<close> to \<open>U+00FF\<close>, and the classes of the patterns.\<close>

definition is_space :: "char \<Rightarrow> bool" where
  "is_space c = (c \<in> set [CHR 0x09, CHR 0x0A, CHR 0x0B, CHR 0x0C, CHR 0x0D, CHR 0x20, CHR 0xA0])"

definition is_word :: "char \<Rightarrow> bool" where
  "is_word c =
     (let n = (of_char c :: nat)
      in (48 \<le> n \<and> n \<le> 57) \<or> (65 \<le> n \<and> n \<le> 90) \<or> n = 95 \<or> (97 \<le> n \<and> n \<le> 122))"

definition is_quote :: "char \<Rightarrow> bool" where
  "is_quote c = (c = SQUOTE \<or> c = DQUOTE)"

definition not_quote :: "char \<Rightarrow> bool" where
  "not_quote c = (\<not> is_quote c)"

definition is_delim :: "char \<Rightarrow> bool" where
  "is_delim c = (is_space c \<or> c = CHR 0x5B \<or> c = CHR 0x7B \<or> c = CHR 0x28 \<or> c = CHR 0x3C)"

definition is_mode_char :: "char \<Rightarrow> bool" where
  "is_mode_char c = (is_word c \<or> c = CHR 0x3A)"

definition is_chord_char :: "char \<Rightarrow> bool" where
  "is_chord_char c =
     (is_word c \<or> c = CHR 0x23 \<or> c = CHR ''b'' \<or> c = CHR 0x2B \<or> c = CHR 0x5E \<or> c = CHR 0x3A
      \<or> c = CHR 0x2D)"

definition is_pitch_letter :: "char \<Rightarrow> bool" where
  "is_pitch_letter c =
     (let n = (of_char c :: nat) in (65 \<le> n \<and> n \<le> 71) \<or> (97 \<le> n \<and> n \<le> 103))"

definition is_accidental :: "char \<Rightarrow> bool" where
  "is_accidental c = (c = CHR 0x23 \<or> c = CHR ''b'')"

fun lit :: "string \<Rightarrow> regex" where
  "lit [] = Eps"
| "lit [x] = Atom (\<lambda>c. c = x)"
| "lit (x # xs) = Seq (Atom (\<lambda>c. c = x)) (lit xs)"

fun seqs :: "regex list \<Rightarrow> regex" where
  "seqs [] = Eps"
| "seqs [r] = r"
| "seqs (r # rs) = Seq r (seqs rs)"

definition SOUND_NO_QUOTES_REGEX :: regex where
  "SOUND_NO_QUOTES_REGEX =
     seqs [Grp 1 (Alt (lit ''s'') (lit ''sound'')), lit ''('', Star (Atom is_space), Eol]"

definition SOUND_WITH_QUOTES_REGEX :: regex where
  "SOUND_WITH_QUOTES_REGEX =
     seqs [Grp 1 (Alt (lit ''s'') (lit ''sound'')), lit ''('', Star (Atom is_space),
           Atom is_quote, Star (Atom not_quote), Eol]"

definition SOUND_FRAGMENT_MATCH_REGEX :: regex where
  "SOUND_FRAGMENT_MATCH_REGEX = seqs [Atom is_delim, Grp 1 (Star (Atom is_word)), Eol]"

definition BANK_NO_QUOTES_REGEX :: regex where
  "BANK_NO_QUOTES_REGEX = seqs [lit ''bank('', Star (Atom is_space), Eol]"

definition BANK_WITH_QUOTES_REGEX :: regex where
  "BANK_WITH_QUOTES_REGEX =
     seqs [lit ''bank('', Star (Atom is_space), Atom is_quote, Star (Atom not_quote), Eol]"

definition SCALE_NO_QUOTES_REGEX :: regex where
  "SCALE_NO_QUOTES_REGEX = seqs [lit ''scale('', Star (Atom is_space), Eol]"

definition SCALE_AFTER_COLON_REGEX :: regex where
  "SCALE_AFTER_COLON_REGEX =
     seqs [lit ''scale('', Star (Atom is_space), Atom is_quote, Star (Atom not_quote),
           lit '':'', Star (Atom not_quote), Eol]"

definition SCALE_PRE_COLON_REGEX :: regex where
  "SCALE_PRE_COLON_REGEX =
     seqs [lit ''scale('', Star (Atom is_space), Atom is_quote, Star (Atom not_quote), Eol]"

definition SCALE_PITCH_MATCH_REGEX :: regex where
  "SCALE_PITCH_MATCH_REGEX =
     seqs [Alt (Grp 1 (Seq (Atom is_pitch_letter) (Star (Atom is_accidental)))) Eps, Eol]"

definition MODE_NO_QUOTES_REGEX :: regex where
  "MODE_NO_QUOTES_REGEX = seqs [lit ''mode('', Star (Atom is_space), Eol]"

definition MODE_AFTER_COLON_REGEX :: regex where
  "MODE_AFTER_COLON_REGEX =
     seqs [lit ''mode('', Star (Atom is_space), Atom is_quote, Star (Atom not_quote),
           lit '':'', Star (Atom not_quote), Eol]"

definition MODE_PRE_COLON_REGEX :: regex where
  "MODE_PRE_COLON_REGEX =
     seqs [lit ''mode('', Star (Atom is_space), Atom is_quote, Star (Atom not_quote), Eol]"

definition MODE_FRAGMENT_MATCH_REGEX :: regex where
  "MODE_FRAGMENT_MATCH_REGEX = seqs [Atom is_delim, Grp 1 (Star (Atom is_mode_char)), Eol]"

definition CHORD_NO_QUOTES_REGEX :: regex where
  "CHORD_NO_QUOTES_REGEX = seqs [lit ''chord('', Star (Atom is_space), Eol]"

definition CHORD_WITH_QUOTES_REGEX :: regex where
  "CHORD_WITH_QUOTES_REGEX =
     seqs [lit ''chord('', Star (Atom is_space), Atom is_quote, Star (Atom not_quote), Eol]"

definition CHORD_FRAGMENT_MATCH_REGEX :: regex where
  "CHORD_FRAGMENT_MATCH_REGEX = seqs [Atom is_delim, Grp 1 (Star (Atom is_chord_char)), Eol]"

definition FALLBACK_WORD_REGEX :: regex where
  "FALLBACK_WORD_REGEX = Star (Atom is_word)"

subsection \<open>String methods\<close>

text \<open>
  \<open>toLowerCase\<close> on the code units \<open>U+0000\<close> to \<open>U+00FF\<close>: the letters \<open>A\<close> to \<open>Z\<close> and the
  Latin-1 capitals \<open>U+00C0\<close> to \<open>U+00DE\<close> (without the multiplication sign) move by 32,
  that is, their bit of value 32, which is clear on these ranges, is set.
\<close>

definition toLowerCase_char :: "char \<Rightarrow> char" where
  "toLowerCase_char c =
     (let n = (of_char c :: nat)
      in if (65 \<le> n \<and> n \<le> 90) \<or> (192 \<le> n \<and> n \<le> 222 \<and> n \<noteq> 215)
         then (case c of Char b0 b1 b2 b3 b4 b5 b6 b7 \<Rightarrow> Char b0 b1 b2 b3 b4 True b6 b7)
         else c)"

definition toLowerCase :: "string \<Rightarrow> string" where
  "toLowerCase s = map toLowerCase_char s"

text \<open>\<open>s.startsWith(p)\<close> is \<open>prefix p s\<close>. \<open>s.includes(p)\<close>: \<open>p\<close> starts at some index of \<open>s\<close>.\<close>

fun includes_str :: "string \<Rightarrow> string \<Rightarrow> bool" where
  "includes_str [] p = (p = [])"
| "includes_str (x # xs) p = (prefix p (x # xs) \<or> includes_str xs p)"

text \<open>\<open>s.lastIndexOf(c)\<close> for a character \<open>c\<close>; \<open>-1\<close> when \<open>c\<close> is not in \<open>s\<close>.\<close>

definition lastIndexOf :: "string \<Rightarrow> char \<Rightarrow> int" where
  "lastIndexOf s c =
     (if c \<in> set s then int (length s) - 1 - int (length (takeWhile (\<lambda>x. x \<noteq> c) (rev s)))
      else - 1)"

text \<open>\<open>label.replace(/\s+/g, ":")\<close>: every run of white space becomes one colon.\<close>

function spaces_to_colon :: "string \<Rightarrow> string" where
  "spaces_to_colon [] = []"
| "spaces_to_colon (c # cs) =
     (if is_space c then CHR 0x3A # spaces_to_colon (dropWhile is_space cs)
      else c # spaces_to_colon cs)"
  by pat_completeness auto
termination
  by (relation "measure length") (auto simp: le_imp_less_Suc length_dropWhile_le)

subsection \<open>Completion data\<close>

record CmCompletionOption =
  label :: string
  type' :: "string option"
  apply' :: "string option"
  filterText :: "string option"
  canonicalName :: "string option"
  isSynonym :: "bool option"

record CmCompletionResult =
  from_offset :: nat
  options :: "CmCompletionOption list"

record DynamicSources =
  src_soundNames :: "string list option"
  src_bankNames :: "string list option"

text \<open>The object \<open>{ label, type }\<close>.\<close>

definition labelled :: "string \<Rightarrow> string \<Rightarrow> CmCompletionOption" where
  "labelled l ty =
     \<lparr>label = l, type' = Some ty, apply' = None, filterText = None, canonicalName = None,
      isSynonym = None\<rparr>"

definition pitchNames :: "string list" where
  "pitchNames =
     [''C'', ''C#'', ''Db'', ''D'', ''D#'', ''Eb'', ''E'', ''E#'', ''Fb'', ''F'', ''F#'', ''Gb'',
      ''G'', ''G#'', ''Ab'', ''A'', ''A#'', ''Bb'', ''B'', ''B#'', ''Cb'']"

text \<open>\<open>[...pitchNames].sort((a, b) => b.length - a.length)\<close>: a stable sort, longest first.\<close>

definition pitchNamesLongestFirst :: "string list" where
  "pitchNamesLongestFirst = sort_key (\<lambda>p. - int (length p)) pitchNames"

definition scaleCompletions :: "CmCompletionOption list" where
  "scaleCompletions = []"

definition modeCompletions :: "CmCompletionOption list" where
  "modeCompletions =
     [labelled ''below'' ''mode'', labelled ''above'' ''mode'', labelled ''duck'' ''mode'',
      labelled ''root'' ''mode'']"

text \<open>
  \<open>getChordSymbolCompletions\<close>, with the keys of the external chord dictionary
  (\<open>Object.keys(complex)\<close> of the tonal package) as its parameter.
\<close>

definition getChordSymbolCompletions :: "string list \<Rightarrow> CmCompletionOption list" where
  "getChordSymbolCompletions complex_keys =
     (let chordSymbols = sort ([] # complex_keys)
      in map (\<lambda>symbol.
               if symbol = [] then
                 \<lparr>label = ''major'', type' = Some ''chord-symbol'', apply' = Some [],
                  filterText = None, canonicalName = None, isSynonym = None\<rparr>
               else
                 \<lparr>label = symbol, type' = Some ''chord-symbol'', apply' = Some symbol,
                  filterText = None, canonicalName = None, isSynonym = None\<rparr>)
             chordSymbols)"

subsection \<open>Handlers\<close>

text \<open>
  \<open>Math.max(text.lastIndexOf('"'), text.lastIndexOf("'"))\<close> and the text after that quote.
\<close>

definition lastQuoteIdx :: "string \<Rightarrow> int" where
  "lastQuoteIdx txt = max (lastIndexOf txt DQUOTE) (lastIndexOf txt SQUOTE)"

definition extractSoundFragment :: "string \<Rightarrow> string" where
  "extractSoundFragment inside =
     (case string_match inside SOUND_FRAGMENT_MATCH_REGEX of
        Some m \<Rightarrow> group m 1
      | None \<Rightarrow> inside)"

definition soundHandler :: "CompletionContext \<Rightarrow> DynamicSources \<Rightarrow> CmCompletionResult option" where
  "soundHandler context sources =
     (case matchBefore context SOUND_NO_QUOTES_REGEX of
        Some soundNoQuotesContext \<Rightarrow> Some \<lparr>from_offset = to' soundNoQuotesContext, options = []\<rparr>
      | None \<Rightarrow>
         (case matchBefore context SOUND_WITH_QUOTES_REGEX of
            None \<Rightarrow> None
          | Some soundContext \<Rightarrow>
              let txt = text' soundContext;
                  quoteIdx = lastQuoteIdx txt
              in if quoteIdx = - 1 then None
                 else
                   let inside = drop (nat (quoteIdx + 1)) txt;
                       fragment = extractSoundFragment inside;
                       names = sort (case src_soundNames sources of Some ns \<Rightarrow> ns | None \<Rightarrow> []);
                       filteredSounds = filter (\<lambda>name. includes_str name fragment) names
                   in Some \<lparr>from_offset = to' soundContext - length fragment,
                            options = map (\<lambda>l. labelled l ''sound'') filteredSounds\<rparr>))"

definition bankHandler :: "CompletionContext \<Rightarrow> DynamicSources \<Rightarrow> CmCompletionResult option" where
  "bankHandler context sources =
     (case matchBefore context BANK_NO_QUOTES_REGEX of
        Some bankNoQuotesContext \<Rightarrow> Some \<lparr>from_offset = to' bankNoQuotesContext, options = []\<rparr>
      | None \<Rightarrow>
         (case matchBefore context BANK_WITH_QUOTES_REGEX of
            None \<Rightarrow> None
          | Some bankMatch \<Rightarrow>
              let txt = text' bankMatch;
                  quoteIdx = lastQuoteIdx txt
              in if quoteIdx = - 1 then None
                 else
                   let inside = drop (nat (quoteIdx + 1)) txt;
                       fragment = inside;
                       bankNames = sort (case src_bankNames sources of Some ns \<Rightarrow> ns | None \<Rightarrow> []);
                       filtered = filter (\<lambda>b. prefix fragment b) bankNames
                   in Some \<lparr>from_offset = to' bankMatch - length fragment,
                            options = map (\<lambda>l. labelled l ''bank'') filtered\<rparr>))"

text \<open>
  \<open>chordHandler\<close>, with the awaited \<open>chordSymbolCompletions\<close> as a parameter. The loop over
  \<open>pitchNamesLongestFirst\<close> stops at the first pitch that the fragment starts with.
\<close>

definition chordHandler ::
  "CompletionContext \<Rightarrow> CmCompletionOption list \<Rightarrow> CmCompletionResult option" where
  "chordHandler context chordSymbolCompletions =
     (case matchBefore context CHORD_NO_QUOTES_REGEX of
        Some chordNoQuotesContext \<Rightarrow> Some \<lparr>from_offset = to' chordNoQuotesContext, options = []\<rparr>
      | None \<Rightarrow>
         (case matchBefore context CHORD_WITH_QUOTES_REGEX of
            None \<Rightarrow> None
          | Some chordContext \<Rightarrow>
              let txt = text' chordContext;
                  quoteIdx = lastQuoteIdx txt
              in if quoteIdx = - 1 then None
                 else
                   let inside = drop (nat (quoteIdx + 1)) txt;
                       fragment = (case string_match inside CHORD_FRAGMENT_MATCH_REGEX of
                                     Some fragMatch \<Rightarrow> group fragMatch 1
                                   | None \<Rightarrow> inside);
                       rootMatch = find (\<lambda>pitch. prefix (toLowerCase pitch) (toLowerCase fragment))
                                     pitchNamesLongestFirst;
                       symbolFragment = (case rootMatch of
                                           Some pitch \<Rightarrow> drop (length pitch) fragment
                                         | None \<Rightarrow> fragment);
                       needle = (case rootMatch of Some pitch \<Rightarrow> symbolFragment | None \<Rightarrow> fragment);
                       filteredSymbols =
                         filter (\<lambda>s. prefix (toLowerCase needle) (toLowerCase (label s)))
                           chordSymbolCompletions;
                       from_off = (case rootMatch of
                                     Some pitch \<Rightarrow> to' chordContext - length fragment
                                   | None \<Rightarrow> to' chordContext - length needle)
                   in case rootMatch of
                        None \<Rightarrow> Some \<lparr>from_offset = from_off, options = filteredSymbols\<rparr>
                      | Some pitch \<Rightarrow>
                          let rootPrefix = take (length pitch) fragment;
                              opts = map (\<lambda>s.
                                       let symbol = (case apply' s of Some a \<Rightarrow> a | None \<Rightarrow> label s);
                                           chordText = (if symbol = [] then rootPrefix
                                                        else rootPrefix @ symbol)
                                       in s\<lparr>label := rootPrefix @ label s,
                                            apply' := Some chordText,
                                            filterText := Some chordText\<rparr>)
                                     filteredSymbols
                          in Some \<lparr>from_offset = from_off, options = opts\<rparr>))"

definition scaleHandler :: "CompletionContext \<Rightarrow> CmCompletionResult option" where
  "scaleHandler context =
     (case matchBefore context SCALE_NO_QUOTES_REGEX of
        Some scaleNoQuotesContext \<Rightarrow> Some \<lparr>from_offset = to' scaleNoQuotesContext, options = []\<rparr>
      | None \<Rightarrow>
         (let afterColon =
               (case matchBefore context SCALE_AFTER_COLON_REGEX of
                  None \<Rightarrow> None
                | Some scaleAfterColonContext \<Rightarrow>
                    let txt = text' scaleAfterColonContext;
                        colonIdx = lastIndexOf txt (CHR 0x3A)
                    in if colonIdx \<noteq> - 1 then
                         let fragment = drop (nat (colonIdx + 1)) txt;
                             filteredScales = filter (\<lambda>s. prefix fragment (label s)) scaleCompletions;
                             opts = map (\<lambda>s. s\<lparr>apply' := Some (spaces_to_colon (label s))\<rparr>)
                                      filteredScales
                         in Some \<lparr>from_offset = from' scaleAfterColonContext + nat (colonIdx + 1),
                                  options = opts\<rparr>
                       else None)
          in case afterColon of
               Some res \<Rightarrow> Some res
             | None \<Rightarrow>
                (case matchBefore context SCALE_PRE_COLON_REGEX of
                   None \<Rightarrow> None
                 | Some scalePreColonContext \<Rightarrow>
                     if CHR 0x3A \<notin> set (text' scalePreColonContext) then
                       if explicit context then
                         let txt = text' scalePreColonContext;
                             fragment = (case string_match txt SCALE_PITCH_MATCH_REGEX of
                                           Some m \<Rightarrow> matched m
                                         | None \<Rightarrow> []);
                             filtered = filter (\<lambda>p. prefix (toLowerCase fragment) (toLowerCase p))
                                          pitchNames
                         in Some \<lparr>from_offset = to' scalePreColonContext - length fragment,
                                  options = map (\<lambda>p. labelled p ''pitch'') filtered\<rparr>
                       else Some \<lparr>from_offset = to' scalePreColonContext, options = []\<rparr>
                     else None)))"

definition modeHandler :: "CompletionContext \<Rightarrow> CmCompletionResult option" where
  "modeHandler context =
     (case matchBefore context MODE_NO_QUOTES_REGEX of
        Some modeNoQuotesContext \<Rightarrow> Some \<lparr>from_offset = to' modeNoQuotesContext, options = []\<rparr>
      | None \<Rightarrow>
         (let afterColon =
               (case matchBefore context MODE_AFTER_COLON_REGEX of
                  None \<Rightarrow> None
                | Some modeAfterColonContext \<Rightarrow>
                    let txt = text' modeAfterColonContext;
                        colonIdx = lastIndexOf txt (CHR 0x3A)
                    in if colonIdx \<noteq> - 1 then
                         let fragment = drop (nat (colonIdx + 1)) txt;
                             filtered = filter (\<lambda>p. prefix (toLowerCase fragment) (toLowerCase p))
                                          pitchNames
                         in Some \<lparr>from_offset = from' modeAfterColonContext + nat (colonIdx + 1),
                                  options = map (\<lambda>p. labelled p ''pitch'') filtered\<rparr>
                       else None)
          in case afterColon of
               Some res \<Rightarrow> Some res
             | None \<Rightarrow>
                (case matchBefore context MODE_PRE_COLON_REGEX of
                   None \<Rightarrow> None
                 | Some modeContext \<Rightarrow>
                     let txt = text' modeContext;
                         quoteIdx = lastQuoteIdx txt
                     in if quoteIdx = - 1 then None
                        else
                          let inside = drop (nat (quoteIdx + 1)) txt;
                              fragment = (case string_match inside MODE_FRAGMENT_MATCH_REGEX of
                                            Some fragMatch \<Rightarrow> group fragMatch 1
                                          | None \<Rightarrow> inside);
                              filteredModes = filter (\<lambda>m. prefix fragment (label m)) modeCompletions
                          in Some \<lparr>from_offset = to' modeContext - length fragment,
                                   options = filteredModes\<rparr>)))"

definition fallbackHandler ::
  "CompletionContext \<Rightarrow> CmCompletionOption list \<Rightarrow> CmCompletionResult option" where
  "fallbackHandler context opts =
     (case matchBefore context FALLBACK_WORD_REGEX of
        None \<Rightarrow> None
      | Some word \<Rightarrow>
          if from' word = to' word \<and> \<not> explicit context then None
          else Some \<lparr>from_offset = from' word, options = opts\<rparr>)"

text \<open>The loop over the handlers: the first result that is not \<open>null\<close>.\<close>

fun first_result :: "(unit \<Rightarrow> CmCompletionResult option) list \<Rightarrow> CmCompletionResult option" where
  "first_result [] = None"
| "first_result (h # hs) = (case h () of Some res \<Rightarrow> Some res | None \<Rightarrow> first_result hs)"

text \<open>
  \<open>complete\<close>. Its parameters are the text, the cursor, \<open>params.explicit\<close>,
  \<open>params.docIndex.jsdocCompletions\<close>, \<open>params.sources\<close> and the keys of the chord dictionary.
\<close>

definition complete ::
  "string \<Rightarrow> int \<Rightarrow> bool \<Rightarrow> CmCompletionOption list \<Rightarrow> DynamicSources option \<Rightarrow> string list
     \<Rightarrow> CmCompletionResult option" where
  "complete text cursorOffset explicit_flag jsdocCompletions params_sources complex_keys =
     (let sources = (case params_sources of
                       Some src \<Rightarrow> src
                     | None \<Rightarrow> \<lparr>src_soundNames = None, src_bankNames = None\<rparr>);
          ctx = makeContext text cursorOffset explicit_flag;
          inString = isInsideString text cursorOffset;
          handlers =
            (if inString then
               [\<lambda>_. soundHandler ctx sources,
                \<lambda>_. bankHandler ctx sources,
                \<lambda>_. chordHandler ctx (getChordSymbolCompletions complex_keys),
                \<lambda>_. scaleHandler ctx,
                \<lambda>_. modeHandler ctx]
             else
               [\<lambda>_. soundHandler ctx sources,
                \<lambda>_. bankHandler ctx sources,
                \<lambda>_. chordHandler ctx (getChordSymbolCompletions complex_keys),
                \<lambda>_. scaleHandler ctx,
                \<lambda>_. modeHandler ctx,
                \<lambda>_. fallbackHandler ctx jsdocCompletions])
      in first_result handlers)"

subsection \<open>The vocabulary of the handlers' properties\<close>

text \<open>
  The text after the last quote of a span (\<open>inside\<close> in the handlers), the fragments that the
  scale and mode handlers take from it, and the name lists with their default \<open>[]\<close>.
\<close>

definition after_last_quote :: "string \<Rightarrow> string" where
  "after_last_quote txt = drop (nat (lastQuoteIdx txt + 1)) txt"

definition pitch_fragment :: "string \<Rightarrow> string" where
  "pitch_fragment txt =
     (case string_match txt SCALE_PITCH_MATCH_REGEX of Some m \<Rightarrow> matched m | None \<Rightarrow> [])"

definition mode_fragment :: "string \<Rightarrow> string" where
  "mode_fragment inside =
     (case string_match inside MODE_FRAGMENT_MATCH_REGEX of
        Some fragMatch \<Rightarrow> group fragMatch 1
      | None \<Rightarrow> inside)"

definition sound_names :: "DynamicSources \<Rightarrow> string list" where
  "sound_names sources = (case src_soundNames sources of Some ns \<Rightarrow> ns | None \<Rightarrow> [])"

definition bank_names :: "DynamicSources \<Rightarrow> string list" where
  "bank_names sources = (case src_bankNames sources of Some ns \<Rightarrow> ns | None \<Rightarrow> [])"

subsection \<open>The fallback handler as the specification words it\<close>

text \<open>
  The word-prefix token ending at the cursor is the longest run of word characters that
  ends there. The handler of the specification declines when the token is empty and the
  request is not explicit, and otherwise returns the documentation list filtered by
  case-insensitive prefix, from the start of the token.
\<close>

definition word_before :: "string \<Rightarrow> int \<Rightarrow> string" where
  "word_before text cursorOffset =
     rev (takeWhile is_word (rev (take (clamp_offset text cursorOffset) text)))"

definition fallback_spec ::
  "string \<Rightarrow> int \<Rightarrow> bool \<Rightarrow> CmCompletionOption list \<Rightarrow> CmCompletionResult option" where
  "fallback_spec text cursorOffset explicit_flag opts =
     (let word = word_before text cursorOffset
      in if word = [] \<and> \<not> explicit_flag then None
         else Some \<lparr>from_offset = clamp_offset text cursorOffset - length word,
                   options = filter (\<lambda>opt. prefix (toLowerCase word) (toLowerCase (label opt)))
                               opts\<rparr>)"

text \<open>Data for the examples: two documented functions, and the samples of the parity test of the repository.\<close>

definition example_docs :: "CmCompletionOption list" where
  "example_docs =
     [\<lparr>label = ''foo'', type' = Some ''function'', apply' = None, filterText = None,
       canonicalName = Some ''foo'', isSynonym = Some False\<rparr>,
      \<lparr>label = ''bar'', type' = Some ''function'', apply' = None, filterText = None,
       canonicalName = Some ''bar'', isSynonym = Some False\<rparr>]"

definition example_sources :: DynamicSources where
  "example_sources =
     \<lparr>src_soundNames = Some [''bd'', ''bd_808'', ''cp'', ''gabba''],
      src_bankNames = Some [''bd'', ''drum'']\<rparr>"

text \<open>A state for the examples: one sample is known, nothing is open or scheduled.\<close>

definition example_state :: server_state where
  "example_state =
     \<lparr>documents = Map.empty, lastKnownVersionByUri = Map.empty(''file:///a.str'' \<mapsto> 2),
      debounceTimersByUri = Map.empty, published = [],
      sampleIndex = \<lparr>soundNames = [''bd_808''], banks = [''bd'']\<rparr>\<rparr>"

section \<open>Properties of the converter, the classifier and the rewriter\<close>

lemma scan_prefix_0: "scan_prefix text 0 = (None, False)"
  by (simp add: scan_prefix_def)

lemma scan_prefix_Suc:
  "n < length text \<Longrightarrow> scan_prefix text (Suc n) = scan_step (scan_prefix text n) (text ! n)"
  by (simp add: scan_prefix_def take_Suc_conv_app_nth)

lemma escaped_at_0: "escaped_at text 0 = False"
  by (simp add: escaped_at_def)

lemma escaped_at_Suc:
  "n < length text \<Longrightarrow>
     escaped_at text (Suc n) = (if text ! n = BACKSLASH then \<not> escaped_at text n else False)"
  by (simp add: escaped_at_def take_Suc_conv_app_nth)

lemma snd_scan_step:
  "snd (scan_step (q, e) ch) = (if e then False else ch = BACKSLASH)"
  by (auto simp: quote_of_char_def)

text \<open>The \<open>escaped\<close> flag of the loop is the parity of the backslash run before the index.\<close>

lemma snd_scan_prefix: "n \<le> length text \<Longrightarrow> snd (scan_prefix text n) = escaped_at text n"
proof (induction n)
  case 0
  show ?case by (simp add: scan_prefix_0 escaped_at_0)
next
  case (Suc n)
  then have n: "n < length text" and ih: "snd (scan_prefix text n) = escaped_at text n"
    by simp_all
  obtain q e where st: "scan_prefix text n = (q, e)"
    by (cases "scan_prefix text n")
  with ih have e: "e = escaped_at text n" by simp
  show ?case
    unfolding scan_prefix_Suc [OF n] st snd_scan_step escaped_at_Suc [OF n] e by auto
qed

subsection \<open>The round trip of the converter\<close>

lemma split_on_nonempty: "split_on sep t \<noteq> []"
  by (induction t) (auto elim: cons_first.elims)

lemma cons_first_nonempty: "cons_first c S \<noteq> []"
  by (cases S) auto

lemma split_lines_is_split_on: "CR \<notin> set t \<Longrightarrow> split_lines t = split_on LF t"
  by (induction t rule: split_lines.induct) auto

lemma butlast_cons_first: "S \<noteq> [] \<Longrightarrow> butlast (cons_first c S) = (if tl S = [] then [] else cons_first c (butlast S))"
  by (cases S) (auto split: list.splits)

lemma last_cons_first: "S \<noteq> [] \<Longrightarrow> last (cons_first c S) = (if tl S = [] then c # last S else last S)"
  by (cases S) auto

lemma covered_Nil_Cons: "S \<noteq> [] \<Longrightarrow> covered ([] # S) = Suc (covered S)"
  by (simp add: covered_def)

lemma covered_cons_first: "S \<noteq> [] \<Longrightarrow> covered (cons_first c S) = Suc (covered S)"
  by (cases S; cases "tl S") (auto simp: covered_def)

lemma covered_split_on: "covered (split_on sep t) = length t"
proof (induction t)
  case Nil
  show ?case by (simp add: covered_def)
next
  case (Cons c cs)
  then show ?case
    by (simp add: covered_Nil_Cons covered_cons_first split_on_nonempty)
qed

lemma split_on_append:
  "split_on sep (xs @ ys) =
     butlast (split_on sep xs) @ (last (split_on sep xs) @ hd (split_on sep ys)) # tl (split_on sep ys)"
proof (induction xs)
  case Nil
  show ?case using split_on_nonempty [of sep ys] by simp
next
  case (Cons c cs)
  obtain l ls where S: "split_on sep cs = l # ls"
    using split_on_nonempty [of sep cs] by (cases "split_on sep cs") auto
  show ?case
    using Cons S by (cases ls) auto
qed

lemma foldl_add: "foldl (\<lambda>a i. a + f i) (s :: nat) xs = s + sum_list (map f xs)"
  by (induction xs arbitrary: s) (auto simp: add.assoc)

text \<open>
  On a text without carriage return the separators are single line feeds, and the round
  trip holds for every offset within the text.
\<close>

lemma roundtrip_without_CR:
  assumes cr: "CR \<notin> set text" and le: "o_off \<le> length text"
  shows "positionToOffset text (offsetToPosition text (int o_off)) = o_off"
proof -
  define P where "P = split_on LF (take o_off text)"
  define S where "S = split_on LF (drop o_off text)"
  define L where "L = split_on LF text"
  have crb: "CR \<notin> set (take o_off text)" using cr by (auto dest: in_set_takeD)
  have clamp: "clamp_offset text (int o_off) = o_off" using le by (simp add: clamp_offset_def)
  have pos: "offsetToPosition text (int o_off) = \<lparr>line = length P - 1, character = length (last P)\<rparr>"
    by (simp add: offsetToPosition_def clamp slice_def Let_def split_lines_is_split_on [OF crb] P_def)
  have Lsplit: "L = butlast P @ (last P @ hd S) # tl S"
    unfolding L_def P_def S_def using split_on_append [of LF "take o_off text" "drop o_off text"] by simp
  have nth: "line_or_empty L i = butlast P ! i" if "i < length P - 1" for i
  proof -
    from that have "i < length L" by (simp add: Lsplit)
    with that show ?thesis by (simp add: line_or_empty_def) (simp add: Lsplit nth_append)
  qed
  have "map (\<lambda>i. length (line_or_empty L i) + 1) [0..<length P - 1]
          = map (\<lambda>i. length (butlast P ! i) + 1) [0..<length (butlast P)]"
    using nth by simp
  also have "\<dots> = map (\<lambda>l. length l + 1) (butlast P)"
    by (simp add: list_eq_iff_nth_eq)
  finally have sum: "sum_list (map (\<lambda>i. length (line_or_empty L i) + 1) [0..<length P - 1])
      = sum_list (map (\<lambda>l. length l + 1) (butlast P))" by simp
  have fold: "foldl (\<lambda>offset i. offset + (length (line_or_empty L i) + 1)) 0 [0..<length P - 1]
      = sum_list (map (\<lambda>i. length (line_or_empty L i) + 1) [0..<length P - 1])"
    using foldl_add [of "\<lambda>i. length (line_or_empty L i) + 1" 0 "[0..<length P - 1]"] by simp
  have "positionToOffset text (offsetToPosition text (int o_off)) = covered P"
    using fold sum
    by (simp add: positionToOffset_def pos Let_def split_lines_is_split_on [OF cr] L_def [symmetric]
        covered_def)
  also have "\<dots> = o_off" using le by (simp add: P_def covered_split_on)
  finally show ?thesis .
qed

text \<open>
  Claim C5 (offset to position and back). The claim asks that, for every text and every
  offset \<open>o\<close> with \<open>0 \<le> o \<le> length text\<close>, \<open>positionToOffset\<close> of \<open>offsetToPosition\<close> is \<open>o\<close>.
  Both functions split at \<open>\r?\n\<close>, but \<open>positionToOffset\<close> counts one character for every
  line break: in the text \<open>a\r\nb\<close> the offset 4 (the end of the text) becomes line 1,
  character 1, and that position becomes the offset 3. The round trip holds on texts
  without carriage return (lemma \<open>roundtrip_without_CR\<close> above).
\<close>

theorem positionToOffset_crlf_offset_lost:
  "offsetToPosition [CHR ''a'', CR, LF, CHR ''b''] 4 = \<lparr>line = 1, character = 1\<rparr> \<and>
   positionToOffset [CHR ''a'', CR, LF, CHR ''b''] (offsetToPosition [CHR ''a'', CR, LF, CHR ''b''] 4) = 3"
  by (simp add: positionToOffset_def offsetToPosition_def clamp_offset_def slice_def
      line_or_empty_def)

text \<open>
  Claim C6 (inside-string state). \<open>isInsideString text 0\<close> is false. Going from offset \<open>n\<close> to
  \<open>n + 1\<close> over the character \<open>text ! n\<close>: an escaped character changes nothing; an unescaped
  quote character toggles the state when no string is open or when it is the kind that is
  open, and is inert otherwise; an unescaped line feed makes the state false when a single-
  or double-quoted string is open; every other character changes nothing, so a line feed
  leaves a block (backtick) string open.
\<close>

theorem isInsideString_toggles:
  "isInsideString text 0 = False \<and>
   (n < length text \<longrightarrow>
      isInsideString text (int n + 1) =
       (if escaped_at text n then isInsideString text (int n)
        else if quote_of_char (text ! n) \<noteq> None \<and>
                (open_quote text n = None \<or> open_quote text n = quote_of_char (text ! n))
             then \<not> isInsideString text (int n)
        else if text ! n = LF \<and> (open_quote text n = Some Sq \<or> open_quote text n = Some Dq)
             then False
        else isInsideString text (int n))) \<and>
   (n < length text \<and> \<not> escaped_at text n \<and> text ! n = LF \<and> open_quote text n = Some Bt \<longrightarrow>
      isInsideString text (int n + 1))"
proof -
  have start: "isInsideString text 0 = False"
    by (simp add: isInsideString_def clamp_offset_def scan_prefix_0)
  have step: "isInsideString text (int n + 1) =
       (if escaped_at text n then isInsideString text (int n)
        else if quote_of_char (text ! n) \<noteq> None \<and>
                (open_quote text n = None \<or> open_quote text n = quote_of_char (text ! n))
             then \<not> isInsideString text (int n)
        else if text ! n = LF \<and> (open_quote text n = Some Sq \<or> open_quote text n = Some Dq)
             then False
        else isInsideString text (int n))" if n: "n < length text"
  proof -
    have c1: "clamp_offset text (int n + 1) = Suc n" and c0: "clamp_offset text (int n) = n"
      using n by (simp_all add: clamp_offset_def)
    obtain q e where st: "scan_prefix text n = (q, e)"
      by (cases "scan_prefix text n")
    have e: "e = escaped_at text n"
      using snd_scan_prefix [of n "text"] n st by simp
    show ?thesis
      unfolding isInsideString_def c1 c0 Let_def scan_prefix_Suc [OF n] open_quote_def st
      using e by (auto simp: quote_of_char_def)
  qed
  have block: "isInsideString text (int n + 1)"
    if "n < length text" "\<not> escaped_at text n" "text ! n = LF" "open_quote text n = Some Bt"
  proof -
    have "isInsideString text (int n)"
      using that by (simp add: isInsideString_def open_quote_def clamp_offset_def)
    with step that show ?thesis
      by (simp add: quote_of_char_def)
  qed
  from start step block show ?thesis by blast
qed

text \<open>
  The theorem at work: in \<open>"a\<close>, line feed, \<open>b\<close> the line feed at index 2 closes the
  double-quoted string; in \<open>"a"\<close> the quote at index 2 closes it; in \<open>"\"\<close> the escaped
  quote at index 2 does not; in a backtick string the line feed at index 1 leaves it open.
\<close>

theorem isInsideString_toggles_witness:
  "isInsideString [DQUOTE, CHR ''a'', LF, CHR ''b''] 2 \<and>
   \<not> isInsideString [DQUOTE, CHR ''a'', LF, CHR ''b''] 3 \<and>
   \<not> isInsideString [DQUOTE, CHR ''a'', DQUOTE] 3 \<and>
   isInsideString [DQUOTE, BACKSLASH, DQUOTE] 3 \<and>
   isInsideString [BACKTICK, LF, CHR ''b''] 2"
proof -
  have a: "isInsideString [DQUOTE, CHR ''a'', LF, CHR ''b''] 2"
    using isInsideString_toggles [of "[DQUOTE, CHR ''a'', LF, CHR ''b'']" 1]
    by (simp add: escaped_at_def open_quote_def scan_prefix_def quote_of_char_def
        isInsideString_def clamp_offset_def)
  have b: "\<not> isInsideString [DQUOTE, CHR ''a'', LF, CHR ''b''] 3"
    using isInsideString_toggles [of "[DQUOTE, CHR ''a'', LF, CHR ''b'']" 2]
    by (simp add: escaped_at_def open_quote_def scan_prefix_def quote_of_char_def)
  have c: "\<not> isInsideString [DQUOTE, CHR ''a'', DQUOTE] 3"
    using isInsideString_toggles [of "[DQUOTE, CHR ''a'', DQUOTE]" 2] a
    by (simp add: escaped_at_def open_quote_def scan_prefix_def quote_of_char_def
        isInsideString_def clamp_offset_def)
  have d: "isInsideString [DQUOTE, BACKSLASH, DQUOTE] 3"
    using isInsideString_toggles [of "[DQUOTE, BACKSLASH, DQUOTE]" 2]
    by (simp add: escaped_at_def open_quote_def scan_prefix_def quote_of_char_def
        isInsideString_def clamp_offset_def)
  have e: "isInsideString [BACKTICK, LF, CHR ''b''] 2"
    using isInsideString_toggles [of "[BACKTICK, LF, CHR ''b'']" 1]
    by (simp add: escaped_at_def open_quote_def scan_prefix_def quote_of_char_def
        isInsideString_def clamp_offset_def)
  from a b c d e show ?thesis by blast
qed

text \<open>
  Claim C7 (no double escaping). The content of the literal \<open>'it\'s'\<close> is \<open>it\'s\<close>; rewritten
  from single quotes to double quotes it is \<open>it's\<close>, so the new literal is \<open>"it's"\<close>. In
  general \<open>rewriteLiteralContent\<close> is \<open>rewrite_spec\<close>: un-escape the source quote where the
  target kind differs, then re-escape backslashes and the target delimiter.
\<close>

theorem rewriteLiteralContent_no_double_escape:
  "rewriteLiteralContent [CHR ''i'', CHR ''t'', BACKSLASH, SQUOTE, CHR ''s''] Sq Dq
     = Some [CHR ''i'', CHR ''t'', SQUOTE, CHR ''s''] \<and>
   (\<forall>content from_q to_q. rewriteLiteralContent content from_q to_q = rewrite_spec content from_q to_q)"
proof -
  have ex: "rewriteLiteralContent [CHR ''i'', CHR ''t'', BACKSLASH, SQUOTE, CHR ''s''] Sq Dq
     = Some [CHR ''i'', CHR ''t'', SQUOTE, CHR ''s'']"
    by (simp add: rewriteLiteralContent_def)
  have gen: "rewriteLiteralContent c f t = rewrite_spec c f t" for c f t
    by (cases f; cases t;
        simp add: rewriteLiteralContent_def rewrite_spec_def unescape_source_quote_def
          reescape_for_target_def Let_def)
  from ex gen show ?thesis by blast
qed

section \<open>Properties of the scheduler and of the sample notification\<close>

text \<open>
  Claim C8 (stale validations are silent). A validation of a document whose version is not
  the last-known version of its URI changes nothing: it sends no diagnostics, neither an
  error nor the clearing empty list. In particular a validation of a document of version
  \<open>N\<close> that runs after a change to another version has been recorded sends nothing.
\<close>

theorem validateDocument_stale_is_silent:
  "(lastKnownVersionByUri st (uri doc) \<noteq> Some (version doc) \<longrightarrow>
      validateDocument parse st doc = st) \<and>
   (uri doc' = uri doc \<and> version doc' \<noteq> version doc \<longrightarrow>
      published (validateDocument parse (onDidChangeContent st doc') doc) = published st)"
proof -
  have stale: "validateDocument parse s d = s"
    if "lastKnownVersionByUri s (uri d) \<noteq> Some (version d)" for s d
    using that by (simp add: validateDocument_def Let_def split: option.splits)
  have "published (validateDocument parse (onDidChangeContent st doc') doc) = published st"
    if "uri doc' = uri doc" "version doc' \<noteq> version doc"
  proof -
    have "lastKnownVersionByUri (onDidChangeContent st doc') (uri doc) = Some (version doc')"
      using that by (simp add: onDidChangeContent_def scheduleValidation_def Let_def)
    with that have "validateDocument parse (onDidChangeContent st doc') doc = onDidChangeContent st doc'"
      by (intro stale) simp
    then show ?thesis
      by (simp add: onDidChangeContent_def scheduleValidation_def Let_def)
  qed
  with stale show ?thesis by blast
qed

theorem validateDocument_stale_is_silent_witness:
  "validateDocument (\<lambda>t. None) example_state
      \<lparr>uri = ''file:///a.str'', version = 1, getText = ''note(1)''\<rparr> = example_state \<and>
   published (validateDocument (\<lambda>t. Some (ErrorObject (Some ''Unexpected token'') (Some (1, 2))))
      (onDidChangeContent example_state \<lparr>uri = ''file:///a.str'', version = 4, getText = ''s(''\<rparr>)
      \<lparr>uri = ''file:///a.str'', version = 3, getText = ''s''\<rparr>) = []"
proof -
  have a: "validateDocument (\<lambda>t. None) example_state
      \<lparr>uri = ''file:///a.str'', version = 1, getText = ''note(1)''\<rparr> = example_state"
    using validateDocument_stale_is_silent
      [of example_state "\<lparr>uri = ''file:///a.str'', version = 1, getText = ''note(1)''\<rparr>"]
    by (simp add: example_state_def)
  have b: "published (validateDocument (\<lambda>t. Some (ErrorObject (Some ''Unexpected token'') (Some (1, 2))))
      (onDidChangeContent example_state \<lparr>uri = ''file:///a.str'', version = 4, getText = ''s(''\<rparr>)
      \<lparr>uri = ''file:///a.str'', version = 3, getText = ''s''\<rparr>) = []"
    using validateDocument_stale_is_silent
      [where st = example_state
         and doc' = "\<lparr>uri = ''file:///a.str'', version = 4, getText = ''s(''\<rparr>"
         and doc = "\<lparr>uri = ''file:///a.str'', version = 3, getText = ''s''\<rparr>"]
    by (simp add: example_state_def)
  from a b show ?thesis by blast
qed

text \<open>
  Claim C9 (malformed sample payloads), as stated: every payload that is not an object
  carrying a \<open>soundNames\<close> string array leaves the sample index unchanged. The empty object
  \<open>{}\<close> is such a payload, and the handler replaces the index by the empty one.
\<close>

theorem onSamplesNotification_empty_object_resets:
  "sampleIndex (onSamplesNotification example_state (JObj [])) = \<lparr>soundNames = [], banks = []\<rparr> \<and>
   sampleIndex (onSamplesNotification example_state (JObj [])) \<noteq> sampleIndex example_state"
  by (simp add: onSamplesNotification_def deriveBanksFromSounds_def example_state_def)

text \<open>
  Claim C9, amended. A payload that is not an object (\<open>undefined\<close>, \<open>null\<close>, a boolean, a
  number, a string) is ignored: the state is unchanged. An object or array payload is never
  an error and touches nothing but the sample index: without a \<open>soundNames\<close> array it
  installs the empty index; with one, it installs the sorted non-empty strings of the array
  (the other members are dropped) and the banks derived from them.
\<close>

theorem onSamplesNotification_effect:
  "(falsy payload \<or> \<not> typeof_object payload \<longrightarrow> onSamplesNotification st payload = st) \<and>
   (\<not> falsy payload \<and> typeof_object payload \<and> (\<forall>xs. get_soundNames payload \<noteq> JArr xs) \<longrightarrow>
      sampleIndex (onSamplesNotification st payload) = \<lparr>soundNames = [], banks = []\<rparr>) \<and>
   (\<not> falsy payload \<and> typeof_object payload \<and> get_soundNames payload = JArr xs \<longrightarrow>
      sampleIndex (onSamplesNotification st payload) =
        \<lparr>soundNames = sort (List.map_filter nonempty_string xs),
         banks = deriveBanksFromSounds (sort (List.map_filter nonempty_string xs))\<rparr>) \<and>
   documents (onSamplesNotification st payload) = documents st \<and>
   lastKnownVersionByUri (onSamplesNotification st payload) = lastKnownVersionByUri st \<and>
   debounceTimersByUri (onSamplesNotification st payload) = debounceTimersByUri st \<and>
   published (onSamplesNotification st payload) = published st"
proof -
  have ignored: "onSamplesNotification st payload = st" if "falsy payload \<or> \<not> typeof_object payload"
    using that by (simp add: onSamplesNotification_def)
  have reset: "sampleIndex (onSamplesNotification st payload) = \<lparr>soundNames = [], banks = []\<rparr>"
    if "\<not> falsy payload" "typeof_object payload" "\<forall>xs. get_soundNames payload \<noteq> JArr xs"
    using that
    by (cases "get_soundNames payload")
      (simp_all add: onSamplesNotification_def deriveBanksFromSounds_def)
  have install: "sampleIndex (onSamplesNotification st payload) =
        \<lparr>soundNames = sort (List.map_filter nonempty_string xs),
         banks = deriveBanksFromSounds (sort (List.map_filter nonempty_string xs))\<rparr>"
    if "\<not> falsy payload" "typeof_object payload" "get_soundNames payload = JArr xs"
    using that by (simp add: onSamplesNotification_def Let_def)
  have frame: "documents (onSamplesNotification st payload) = documents st"
    "lastKnownVersionByUri (onSamplesNotification st payload) = lastKnownVersionByUri st"
    "debounceTimersByUri (onSamplesNotification st payload) = debounceTimersByUri st"
    "published (onSamplesNotification st payload) = published st"
    by (simp_all add: onSamplesNotification_def Let_def)
  from ignored reset install frame show ?thesis by blast
qed

theorem onSamplesNotification_effect_witness:
  "onSamplesNotification example_state (JStr ''bd'') = example_state \<and>
   sampleIndex (onSamplesNotification example_state (JObj [(''bd'', JNum 1)]))
     = \<lparr>soundNames = [], banks = []\<rparr> \<and>
   sampleIndex (onSamplesNotification example_state
       (JObj [(''soundNames'', JArr [JStr ''cp'', JNum 3, JStr ''bd_808''])]))
     = \<lparr>soundNames = [''bd_808'', ''cp''], banks = [''bd'']\<rparr>"
proof -
  have a: "onSamplesNotification example_state (JStr ''bd'') = example_state"
    using onSamplesNotification_effect [of "JStr ''bd''" example_state] by simp
  have b: "sampleIndex (onSamplesNotification example_state (JObj [(''bd'', JNum 1)]))
     = \<lparr>soundNames = [], banks = []\<rparr>"
    using onSamplesNotification_effect [of "JObj [(''bd'', JNum 1)]" example_state] by simp
  have c: "sampleIndex (onSamplesNotification example_state
       (JObj [(''soundNames'', JArr [JStr ''cp'', JNum 3, JStr ''bd_808''])]))
     = \<lparr>soundNames = [''bd_808'', ''cp''], banks = [''bd'']\<rparr>"
    using onSamplesNotification_effect
      [of "JObj [(''soundNames'', JArr [JStr ''cp'', JNum 3, JStr ''bd_808''])]" example_state
          "[JStr ''cp'', JNum 3, JStr ''bd_808'']"]
    by (simp add: deriveBanksFromSounds_def bank_of_key_def)
  from a b c show ?thesis by blast
qed

section \<open>Properties of the rightmost-match engine\<close>

lemmas regex_defs =
  SOUND_NO_QUOTES_REGEX_def SOUND_WITH_QUOTES_REGEX_def SOUND_FRAGMENT_MATCH_REGEX_def
  BANK_NO_QUOTES_REGEX_def BANK_WITH_QUOTES_REGEX_def SCALE_NO_QUOTES_REGEX_def
  SCALE_AFTER_COLON_REGEX_def SCALE_PRE_COLON_REGEX_def SCALE_PITCH_MATCH_REGEX_def
  MODE_NO_QUOTES_REGEX_def MODE_AFTER_COLON_REGEX_def MODE_PRE_COLON_REGEX_def
  MODE_FRAGMENT_MATCH_REGEX_def CHORD_NO_QUOTES_REGEX_def CHORD_WITH_QUOTES_REGEX_def
  CHORD_FRAGMENT_MATCH_REGEX_def FALLBACK_WORD_REGEX_def

lemmas class_defs =
  is_space_def is_word_def is_quote_def not_quote_def is_delim_def is_mode_char_def
  is_chord_char_def is_pitch_letter_def is_accidental_def

lemmas engine_defs =
  makeContext_def makeContext_limit_def matchBefore_in_def matchBefore_loop.simps
  exec_from.simps match_at_def next_lastIndex_def clamp_offset_def slice_def string_match_def
  group_def

lemma last_hit_Nil: "last_hit w [] = None"
  by (simp add: last_hit_def)

lemma last_hit_Cons:
  "last_hit w (m # xs) =
     (case last_hit w xs of Some x \<Rightarrow> Some x | None \<Rightarrow> if ends_at_end w m then Some m else None)"
  by (auto simp: last_hit_def split: list.splits)

lemma last_hit_Some: "last_hit w xs = Some m \<Longrightarrow> m \<in> set xs \<and> ends_at_end w m"
proof -
  assume "last_hit w xs = Some m"
  then obtain h hs where f: "filter (ends_at_end w) xs = h # hs" and m: "m = last (h # hs)"
    by (auto simp: last_hit_def split: list.splits)
  have "m \<in> set (filter (ends_at_end w) xs)"
    unfolding f m by (rule last_in_set) simp
  then show ?thesis by simp
qed

text \<open>The loop keeps the last match of the iteration that ends at the end of the window.\<close>

lemma matchBefore_loop_last_hit:
  "matchBefore_loop re w i best =
     (case last_hit w (iteration_matches re w i) of None \<Rightarrow> best | Some m \<Rightarrow> Some m)"
proof (induction re w i best rule: matchBefore_loop.induct)
  case (1 re w i best)
  show ?case
  proof (cases "exec_from re w i")
    case None
    then show ?thesis
      by (simp add: matchBefore_loop.simps [of re w i] iteration_matches.simps [of re w i]
          last_hit_Nil)
  next
    case (Some m)
    from "1.IH" [OF Some] Some show ?thesis
      by (simp add: matchBefore_loop.simps [of re w i] iteration_matches.simps [of re w i]
          last_hit_Cons ends_at_end_def split: option.splits)
  qed
qed

lemma match_at_substring:
  "match_at re input i = Some m \<Longrightarrow>
     matched m = slice input (index m) (index m + length (matched m))"
  by (auto simp: match_at_def slice_def split: list.splits)

lemma exec_from_substring:
  "exec_from re input i = Some m \<Longrightarrow>
     matched m = slice input (index m) (index m + length (matched m))"
proof (induction re input i rule: exec_from.induct)
  case (1 re input i)
  show ?case
  proof (cases "match_at re input i")
    case None
    with "1.prems" have le: "\<not> length input < i" and rec: "exec_from re input (Suc i) = Some m"
      by (auto simp: exec_from.simps [of re input i] split: if_splits)
    from "1.IH" [OF le None rec] show ?thesis .
  next
    case (Some m')
    with "1.prems" have "m' = m"
      by (auto simp: exec_from.simps [of re input i] split: if_splits)
    with match_at_substring [OF Some] show ?thesis by simp
  qed
qed

lemma iteration_matches_exec:
  "m \<in> set (iteration_matches re w i) \<Longrightarrow> \<exists>j. exec_from re w j = Some m"
proof (induction re w i rule: iteration_matches.induct)
  case (1 re w i)
  then show ?case
    by (cases "exec_from re w i") (auto simp: iteration_matches.simps [of re w i])
qed

lemma slice_slice:
  "b \<le> c - a \<Longrightarrow> slice (slice s a c) i b = slice s (a + i) (a + b)"
proof -
  assume le: "b \<le> c - a"
  have "slice (slice s a c) i b = take (b - i) (take (c - a - i) (drop (a + i) s))"
    by (simp add: slice_def drop_take add.commute)
  also have "\<dots> = take (b - i) (drop (a + i) s)"
    using le by (simp add: min_def)
  finally show ?thesis by (simp add: slice_def)
qed

text \<open>
  What \<open>matchBefore\<close> of a context computes, for every pattern, text, cursor and window
  size, and what every span it returns satisfies.
\<close>

lemma matchBefore_last_hit:
  "matchBefore (makeContext_limit text cursorOffset e limit) re =
     map_option (span_of (clamp_offset text cursorOffset - limit))
       (last_hit
          (slice text (clamp_offset text cursorOffset - limit) (clamp_offset text cursorOffset))
          (iteration_matches re
             (slice text (clamp_offset text cursorOffset - limit) (clamp_offset text cursorOffset))
             0))"
  by (simp add: makeContext_limit_def Let_def matchBefore_in_def matchBefore_loop_last_hit
      span_of_def split: option.splits)

lemma matchBefore_span:
  assumes "matchBefore (makeContext_limit text cursorOffset e limit) re = Some s"
  shows "to' s = clamp_offset text cursorOffset \<and> from' s \<le> to' s \<and>
         text' s = slice text (from' s) (to' s)"
proof -
  define t where "t = clamp_offset text cursorOffset"
  define wf where "wf = t - limit"
  define w where "w = slice text wf t"
  have t: "t \<le> length text" by (simp add: t_def clamp_offset_def)
  have lw: "length w = t - wf" using t by (auto simp: w_def slice_def wf_def)
  from assms obtain m where lh: "last_hit w (iteration_matches re w 0) = Some m"
    and s: "s = span_of wf m"
    unfolding matchBefore_last_hit t_def [symmetric] wf_def [symmetric] w_def [symmetric]
    by auto
  from last_hit_Some [OF lh] have mem: "m \<in> set (iteration_matches re w 0)"
    and fin: "index m + length (matched m) = length w" by (auto simp: ends_at_end_def)
  from iteration_matches_exec [OF mem] obtain j where ex: "exec_from re w j = Some m" ..
  have sub: "matched m = slice w (index m) (index m + length (matched m))"
    by (rule exec_from_substring [OF ex])
  have wft: "wf \<le> t" by (simp add: wf_def)
  have "slice w (index m) (index m + length (matched m))
          = slice text (wf + index m) (wf + (index m + length (matched m)))"
    unfolding w_def by (rule slice_slice) (use fin lw in simp)
  with sub have "matched m = slice text (wf + index m) (wf + index m + length (matched m))"
    by (simp add: add.assoc)
  with fin lw wft have "to' s = t \<and> from' s \<le> to' s \<and> text' s = slice text (from' s) (to' s)"
    by (auto simp: s span_of_def)
  then show ?thesis unfolding t_def .
qed

text \<open>
  Claim C1 (rightmost match). For every pattern, text, cursor offset and window size:
  \<open>matchBefore\<close> returns the last match, in the order of the iteration, among those that end
  at the end of the window, and \<open>null\<close> when there is none; a span it returns ends at the
  clamped cursor offset and is the text between its two offsets.
\<close>

theorem matchBefore_rightmost:
  "matchBefore (makeContext_limit text cursorOffset e limit) re =
     map_option (span_of (clamp_offset text cursorOffset - limit))
       (last_hit
          (slice text (clamp_offset text cursorOffset - limit) (clamp_offset text cursorOffset))
          (iteration_matches re
             (slice text (clamp_offset text cursorOffset - limit) (clamp_offset text cursorOffset))
             0)) \<and>
   (matchBefore (makeContext_limit text cursorOffset e limit) re = Some s \<longrightarrow>
      to' s = clamp_offset text cursorOffset \<and> from' s \<le> to' s \<and>
      text' s = slice text (from' s) (to' s))"
proof (rule conjI)
  show "matchBefore (makeContext_limit text cursorOffset e limit) re =
     map_option (span_of (clamp_offset text cursorOffset - limit))
       (last_hit
          (slice text (clamp_offset text cursorOffset - limit) (clamp_offset text cursorOffset))
          (iteration_matches re
             (slice text (clamp_offset text cursorOffset - limit) (clamp_offset text cursorOffset))
             0))"
    by (rule matchBefore_last_hit)
next
  show "matchBefore (makeContext_limit text cursorOffset e limit) re = Some s \<longrightarrow>
      to' s = clamp_offset text cursorOffset \<and> from' s \<le> to' s \<and>
      text' s = slice text (from' s) (to' s)"
    using matchBefore_span by (rule impI)
qed

text \<open>
  The theorem at work on the text \<open>foo\<close> with the cursor at its end and the pattern \<open>\w*\<close>:
  the iteration sees \<open>foo\<close> at 0 and then the empty match at 3; both end at the cursor, and
  the later one is returned. The pattern \<open>bank\(\s*$\<close> has no match there.
\<close>

theorem matchBefore_rightmost_witness:
  "iteration_matches FALLBACK_WORD_REGEX ''foo'' 0 =
     [\<lparr>index = 0, matched = ''foo'', groups = []\<rparr>, \<lparr>index = 3, matched = [], groups = []\<rparr>] \<and>
   matchBefore (makeContext ''foo'' 3 True) FALLBACK_WORD_REGEX
     = Some \<lparr>from' = 3, to' = 3, text' = []\<rparr> \<and>
   matchBefore (makeContext ''foo'' 3 True) BANK_NO_QUOTES_REGEX = None"
proof -
  have it: "iteration_matches FALLBACK_WORD_REGEX ''foo'' 0 =
     [\<lparr>index = 0, matched = ''foo'', groups = []\<rparr>, \<lparr>index = 3, matched = [], groups = []\<rparr>]"
    by (simp add: iteration_matches.simps regex_defs class_defs engine_defs)
  have "matchBefore (makeContext ''foo'' 3 True) FALLBACK_WORD_REGEX
     = Some \<lparr>from' = 3, to' = 3, text' = []\<rparr>"
    using matchBefore_rightmost
      [of "''foo''" 3 True 8192 FALLBACK_WORD_REGEX "\<lparr>from' = 3, to' = 3, text' = []\<rparr>"] it
    by (simp add: makeContext_def clamp_offset_def slice_def last_hit_def ends_at_end_def
        span_of_def)
  moreover have "matchBefore (makeContext ''foo'' 3 True) BANK_NO_QUOTES_REGEX = None"
    by (simp add: regex_defs class_defs engine_defs)
  ultimately show ?thesis using it by blast
qed

section \<open>Properties of the handlers\<close>

lemmas handler_defs =
  lastQuoteIdx_def lastIndexOf_def toLowerCase_def toLowerCase_char_def pitchNames_def
  pitchNamesLongestFirst_def labelled_def getChordSymbolCompletions_def modeCompletions_def
  scaleCompletions_def extractSoundFragment_def example_sources_def example_docs_def

subsection \<open>The pattern \<open>\w*\<close> under the rightmost-match engine\<close>

lemma ms_star_atom_Cons:
  "ms (Star (Atom p)) (a # s) c =
     (if p a then ms (Star (Atom p)) s c @ [(a # s, c)] else [(a # s, c)])"
  by (subst ms.simps(6)) (simp del: ms.simps(6))

lemma ms_star_atom: "\<exists>rest. ms (Star (Atom p)) s c = (dropWhile p s, c) # rest"
proof (induction s)
  case Nil
  show ?case by simp
next
  case (Cons a s)
  then obtain rest where "ms (Star (Atom p)) s c = (dropWhile p s, c) # rest" ..
  then show ?case
    by (simp add: ms_star_atom_Cons del: ms.simps(6))
qed

lemma take_takeWhile: "take (length xs - length (dropWhile p xs)) xs = takeWhile p xs"
proof -
  have "length xs = length (takeWhile p xs) + length (dropWhile p xs)"
    by (metis length_append takeWhile_dropWhile_id)
  then have "length xs - length (dropWhile p xs) = length (takeWhile p xs)" by simp
  then show ?thesis by (simp add: takeWhile_eq_take [symmetric])
qed

lemma match_at_star_atom:
  "match_at (Star (Atom p)) input i =
     Some \<lparr>index = i, matched = takeWhile p (drop i input), groups = []\<rparr>"
proof -
  obtain rest
    where r: "ms (Star (Atom p)) (drop i input) [] = (dropWhile p (drop i input), []) # rest"
    using ms_star_atom by blast
  have "take (length input - i - length (dropWhile p (drop i input))) (drop i input)
          = takeWhile p (drop i input)"
    using take_takeWhile [of "drop i input" p] by simp
  with r show ?thesis by (simp add: match_at_def)
qed

lemma exec_from_star_atom:
  "i \<le> length input \<Longrightarrow>
     exec_from (Star (Atom p)) input i =
       Some \<lparr>index = i, matched = takeWhile p (drop i input), groups = []\<rparr>"
  by (simp add: exec_from.simps [of _ input i] match_at_star_atom)

text \<open>
  Whatever stands before the cursor, the last round of the iteration finds the empty match
  at the end of the window, and that match is the one the loop keeps.
\<close>

lemma loop_star_atom:
  "i \<le> length w \<Longrightarrow>
     matchBefore_loop (Star (Atom p)) w i best =
       Some \<lparr>index = length w, matched = [], groups = []\<rparr>"
proof (induction "length w - i" arbitrary: i best rule: less_induct)
  case less
  let ?t = "takeWhile p (drop i w)"
  let ?m = "\<lparr>index = i, matched = ?t, groups = []\<rparr>"
  have ex: "exec_from (Star (Atom p)) w i = Some ?m"
    using less.prems by (rule exec_from_star_atom)
  have lt: "length ?t \<le> length w - i"
    using length_takeWhile_le [of p "drop i w"] by simp
  show ?case
  proof (cases "next_lastIndex ?m \<le> length w")
    case True
    have gt: "i < next_lastIndex ?m" using next_lastIndex_gt [OF ex] .
    have "length w - next_lastIndex ?m < length w - i" using True gt by simp
    from less.hyps [OF this True] show ?thesis
      by (simp add: matchBefore_loop.simps [of _ w i] ex)
  next
    case False
    with lt less.prems have t: "?t = []" and i: "i = length w"
      by (auto simp: next_lastIndex_def split: if_splits)
    have stop: "exec_from (Star (Atom p)) w (Suc (length w)) = None"
      by (simp add: exec_from.simps [of _ w "Suc (length w)"])
    have ex': "exec_from (Star (Atom p)) w (length w)
                 = Some \<lparr>index = length w, matched = [], groups = []\<rparr>"
      using ex t i by simp
    have "matchBefore_loop (Star (Atom p)) w (length w) best
            = Some \<lparr>index = length w, matched = [], groups = []\<rparr>"
      by (simp add: matchBefore_loop.simps [of _ w "length w"] ex' next_lastIndex_def
            matchBefore_loop.simps [of _ w "Suc (length w)"] stop)
    then show ?thesis using i by simp
  qed
qed

lemma matchBefore_fallback_word:
  "matchBefore (makeContext_limit text cursorOffset e limit) FALLBACK_WORD_REGEX =
     Some \<lparr>from' = clamp_offset text cursorOffset, to' = clamp_offset text cursorOffset,
           text' = []\<rparr>"
proof -
  have "clamp_offset text cursorOffset \<le> length text" by (simp add: clamp_offset_def)
  then show ?thesis
    by (simp add: makeContext_limit_def Let_def matchBefore_in_def FALLBACK_WORD_REGEX_def
        loop_star_atom slice_def)
qed

lemma fallbackHandler_exact:
  "fallbackHandler (makeContext_limit text cursorOffset e limit) opts =
     (if e then Some \<lparr>from_offset = clamp_offset text cursorOffset, options = opts\<rparr> else None)"
  by (simp add: fallbackHandler_def matchBefore_fallback_word)
    (simp add: makeContext_limit_def Let_def)

text \<open>
  Claim C2 (fallback handler), as stated: the handler is \<open>fallback_spec\<close>. With the text \<open>foo\<close>,
  the cursor at its end and the documented functions \<open>foo\<close> and \<open>bar\<close>, an explicit request
  gets both functions from offset 3, where the claim asks for \<open>foo\<close> alone from offset 0; a
  request that is not explicit is declined, where the claim asks for the same result.
\<close>

theorem fallbackHandler_differs_from_spec:
  "fallbackHandler (makeContext ''foo'' 3 True) example_docs
     = Some \<lparr>from_offset = 3, options = example_docs\<rparr> \<and>
   fallback_spec ''foo'' 3 True example_docs
     = Some \<lparr>from_offset = 0, options = [hd example_docs]\<rparr> \<and>
   fallbackHandler (makeContext ''foo'' 3 False) example_docs = None \<and>
   fallback_spec ''foo'' 3 False example_docs
     = Some \<lparr>from_offset = 0, options = [hd example_docs]\<rparr>"
  by (simp add: makeContext_def fallbackHandler_exact fallback_spec_def word_before_def
      example_docs_def clamp_offset_def is_word_def toLowerCase_def toLowerCase_char_def Let_def)

text \<open>
  Claim C2, amended. When the five earlier handlers decline, \<open>complete\<close> returns nothing
  inside a string and what the fallback handler returns outside. The fallback handler does
  not filter: a result it returns carries the full documentation completion list, and
  starts at or before the cursor. An explicit request is never declined; a request that is
  not explicit is declined when no word character stands before the cursor.
\<close>

theorem fallbackHandler_by_design:
  "(e \<longrightarrow> (\<exists>r. fallbackHandler (makeContext text cur e) opts = Some r \<and> options r = opts)) \<and>
   (\<not> e \<and> word_before text cur = [] \<longrightarrow> fallbackHandler (makeContext text cur e) opts = None) \<and>
   (fallbackHandler (makeContext text cur e) opts = Some r \<longrightarrow>
      options r = opts \<and> from_offset r \<le> clamp_offset text cur) \<and>
   (soundHandler (makeContext text cur e) src = None \<and>
    bankHandler (makeContext text cur e) src = None \<and>
    chordHandler (makeContext text cur e) (getChordSymbolCompletions keys) = None \<and>
    scaleHandler (makeContext text cur e) = None \<and>
    modeHandler (makeContext text cur e) = None \<longrightarrow>
      complete text cur e opts (Some src) keys =
        (if isInsideString text cur then None else fallbackHandler (makeContext text cur e) opts))"
proof -
  have ex: "fallbackHandler (makeContext text cur e) opts =
     (if e then Some \<lparr>from_offset = clamp_offset text cur, options = opts\<rparr> else None)"
    unfolding makeContext_def by (rule fallbackHandler_exact)
  have a: "e \<longrightarrow> (\<exists>r. fallbackHandler (makeContext text cur e) opts = Some r \<and> options r = opts)"
    using ex by (cases e) simp_all
  have b: "\<not> e \<and> word_before text cur = [] \<longrightarrow> fallbackHandler (makeContext text cur e) opts = None"
    using ex by (cases e) simp_all
  have c: "fallbackHandler (makeContext text cur e) opts = Some r \<longrightarrow>
      options r = opts \<and> from_offset r \<le> clamp_offset text cur"
    using ex by (cases e) auto
  have d: "soundHandler (makeContext text cur e) src = None \<and>
    bankHandler (makeContext text cur e) src = None \<and>
    chordHandler (makeContext text cur e) (getChordSymbolCompletions keys) = None \<and>
    scaleHandler (makeContext text cur e) = None \<and>
    modeHandler (makeContext text cur e) = None \<longrightarrow>
      complete text cur e opts (Some src) keys =
        (if isInsideString text cur then None else fallbackHandler (makeContext text cur e) opts)"
    by (simp add: complete_def Let_def split: option.splits)
  from a b c d show ?thesis by (intro conjI)
qed

lemmas eval_defs =
  soundHandler_def bankHandler_def chordHandler_def scaleHandler_def modeHandler_def
  regex_defs class_defs engine_defs handler_defs Let_def

theorem fallbackHandler_by_design_witness:
  "(\<exists>r. fallbackHandler (makeContext ''foo'' 3 True) example_docs = Some r
        \<and> options r = example_docs) \<and>
   fallbackHandler (makeContext ''foo '' 4 False) example_docs = None \<and>
   complete ''foo'' 3 True example_docs (Some example_sources) []
     = fallbackHandler (makeContext ''foo'' 3 True) example_docs"
proof -
  have a: "\<exists>r. fallbackHandler (makeContext ''foo'' 3 True) example_docs = Some r
             \<and> options r = example_docs"
    using fallbackHandler_by_design [of True "''foo''" 3 example_docs]
    by simp
  have b: "fallbackHandler (makeContext ''foo '' 4 False) example_docs = None"
    using fallbackHandler_by_design [of False "''foo ''" 4 example_docs]
    by (simp add: word_before_def clamp_offset_def is_word_def)
  have h: "soundHandler (makeContext ''foo'' 3 True) example_sources = None"
    "bankHandler (makeContext ''foo'' 3 True) example_sources = None"
    "chordHandler (makeContext ''foo'' 3 True) (getChordSymbolCompletions []) = None"
    "scaleHandler (makeContext ''foo'' 3 True) = None"
    "modeHandler (makeContext ''foo'' 3 True) = None"
    by (simp_all add: eval_defs)
  have i: "\<not> isInsideString ''foo'' 3"
    by (simp add: isInsideString_def clamp_offset_def scan_prefix_def quote_of_char_def)
  have c: "complete ''foo'' 3 True example_docs (Some example_sources) []
     = fallbackHandler (makeContext ''foo'' 3 True) example_docs"
    using fallbackHandler_by_design
      [of True "''foo''" 3 example_docs "\<lparr>from_offset = 3, options = example_docs\<rparr>"
          example_sources "[]"] h i
    by simp
  from a b c show ?thesis by (intro conjI)
qed

subsection \<open>The chord handler on the text of the specification\<close>

text \<open>
  Claim C4, as stated: for the text \<open>chord("C\<close>, the cursor at its end and the chord symbols
  \<open>""\<close>, \<open>maj7\<close> and \<open>m7\<close>, an option with the label \<open>C\<close> is returned. The labels returned are
  \<open>Cmajor\<close>, \<open>Cm7\<close> and \<open>Cmaj7\<close>: the completion of the empty symbol carries the label
  \<open>major\<close>, and the handler puts the root before every label. It is so whether the empty
  symbol is the one that \<open>getChordSymbolCompletions\<close> adds to the dictionary keys \<open>maj7\<close>
  and \<open>m7\<close>, or is a key of the dictionary itself.
\<close>

theorem chordHandler_no_label_C:
  \<open>(\<exists>r. chordHandler (makeContext ''chord("C'' 8 True) (getChordSymbolCompletions [''maj7'', ''m7''])
          = Some r
      \<and> map label (options r) = [''Cmajor'', ''Cm7'', ''Cmaj7'']
      \<and> ''C'' \<notin> set (map label (options r))) \<and>
   (\<exists>r. chordHandler (makeContext ''chord("C'' 8 True)
            (getChordSymbolCompletions ['''', ''maj7'', ''m7''])
          = Some r
      \<and> map label (options r) = [''Cmajor'', ''Cmajor'', ''Cm7'', ''Cmaj7'']
      \<and> ''C'' \<notin> set (map label (options r)))\<close>
  by (simp add: eval_defs)

text \<open>
  Claim C4, amended. For that input, explicit or not, the root \<open>C\<close> is recognized and the
  result starts at offset 7, the offset of \<open>C\<close>; its options are, in this order, \<open>Cmajor\<close>
  (which inserts the root alone, \<open>C\<close>), \<open>Cm7\<close> and \<open>Cmaj7\<close>, each with the inserted text as its
  filter text. The dictionary keys \<open>maj7\<close> and \<open>m7\<close> give the sorted symbols \<open>""\<close>, \<open>m7\<close>,
  \<open>maj7\<close>.
\<close>

theorem chordHandler_example:
  \<open>chordHandler (makeContext ''chord("C'' 8 e) (getChordSymbolCompletions [''maj7'', ''m7'']) =
     Some \<lparr>from_offset = 7, options =
       [\<lparr>label = ''Cmajor'', type' = Some ''chord-symbol'', apply' = Some ''C'',
         filterText = Some ''C'', canonicalName = None, isSynonym = None\<rparr>,
        \<lparr>label = ''Cm7'', type' = Some ''chord-symbol'', apply' = Some ''Cm7'',
         filterText = Some ''Cm7'', canonicalName = None, isSynonym = None\<rparr>,
        \<lparr>label = ''Cmaj7'', type' = Some ''chord-symbol'', apply' = Some ''Cmaj7'',
         filterText = Some ''Cmaj7'', canonicalName = None, isSynonym = None\<rparr>]\<rparr>\<close>
  by (simp add: eval_defs)

subsection \<open>What a span of a pattern looks like\<close>

lemma ms_sound: "(s', c') \<in> set (ms r s c) \<Longrightarrow> accepts r s s'"
proof (induction r s c arbitrary: s' c' rule: ms.induct)
  case (1 p s c)
  then show ?case by (auto split: list.splits if_splits intro: accepts.intros)
next
  case (2 s c)
  then show ?case by (auto intro: accepts.intros)
next
  case (3 s c)
  then show ?case by (auto split: if_splits intro: accepts.intros)
next
  case (4 r1 r2 s c)
  from "4.prems" obtain s1 c1
    where a: "(s1, c1) \<in> set (ms r1 s c)" and b: "(s', c') \<in> set (ms r2 s1 c1)"
    by auto
  from "4.IH"(1) [OF a] "4.IH"(2) [OF a refl b] show ?case
    by (rule acc_Seq)
next
  case (5 r1 r2 s c)
  then show ?case by (auto intro: accepts.intros)
next
  case (6 r s c)
  from "6.prems" have "(s', c') = (s, c) \<or>
      (\<exists>s1 c1. (s1, c1) \<in> set (ms r s c) \<and> length s1 < length s
          \<and> (s', c') \<in> set (ms (Star r) s1 c1))"
    by (subst (asm) ms.simps(6)) (auto simp del: ms.simps(6) split: if_splits)
  then show ?case
  proof
    assume "(s', c') = (s, c)"
    then show ?thesis by (auto intro: acc_Star0)
  next
    assume "\<exists>s1 c1. (s1, c1) \<in> set (ms r s c) \<and> length s1 < length s
              \<and> (s', c') \<in> set (ms (Star r) s1 c1)"
    then obtain s1 c1 where a: "(s1, c1) \<in> set (ms r s c)" and l: "length s1 < length s"
      and b: "(s', c') \<in> set (ms (Star r) s1 c1)" by blast
    from "6.IH"(1) [OF a] "6.IH"(2) [OF a refl l b] show ?thesis
      by (rule acc_StarN)
  qed
next
  case (7 n r s c)
  then show ?case by (auto intro: accepts.intros)
qed

lemma accepts_suffix: "accepts r s s' \<Longrightarrow> \<exists>u. s = u @ s'"
proof (induction rule: accepts.induct)
  case (acc_Atom p x xs)
  show ?case by (rule exI [of _ "[x]"]) simp
next
  case (acc_Seq r1 s s1 r2 s2)
  then show ?case by (metis append.assoc)
next
  case (acc_StarN r s s1 s2)
  then show ?case by (metis append.assoc)
qed auto

lemma accepts_star_atom:
  "accepts r s s' \<Longrightarrow> r = Star (Atom p) \<Longrightarrow> \<exists>u. s = u @ s' \<and> list_all p u"
proof (induction rule: accepts.induct)
  case (acc_Star0 r s)
  show ?case by (rule exI [of _ "[]"]) simp
next
  case (acc_StarN r s s1 s2)
  then have r: "r = Atom p" by simp
  from acc_StarN.hyps(1) r obtain x where x: "s = x # s1" "p x"
    by (auto elim: accepts_AtomE)
  from acc_StarN.IH(2) [OF acc_StarN.prems] obtain u where u: "s1 = u @ s2" "list_all p u"
    by blast
  show ?case by (rule exI [of _ "x # u"]) (simp add: x u)
qed simp_all

lemma accepts_lit: "accepts (lit str) s s' \<Longrightarrow> s = str @ s'"
proof (induction str arbitrary: s rule: lit.induct)
  case 1
  then show ?case by (auto elim: accepts_EpsE)
next
  case (2 x)
  then show ?case by (auto elim: accepts_AtomE)
next
  case (3 x v va)
  from "3.prems" obtain s1
    where a: "accepts (Atom (\<lambda>c. c = x)) s s1" and b: "accepts (lit (v # va)) s1 s'"
    by (auto elim: accepts_SeqE)
  from a have "s = x # s1" by (auto elim: accepts_AtomE)
  with "3.IH" [OF b] show ?case by simp
qed

lemma accepts_Seq_tail: "accepts (Seq r t) s s' \<Longrightarrow> \<exists>u v. s = u @ v \<and> accepts t v s'"
proof -
  assume "accepts (Seq r t) s s'"
  then obtain s1 where a: "accepts r s s1" and b: "accepts t s1 s'"
    by (auto elim: accepts_SeqE)
  from accepts_suffix [OF a] obtain u where "s = u @ s1" ..
  with b show ?thesis by blast
qed

text \<open>The tails of the patterns that look into a string argument.\<close>

lemma accepts_quoted_tail:
  assumes "accepts (Seq (Atom is_quote) (Seq (Star (Atom not_quote)) Eol)) s s'"
  shows "\<exists>q inside. s = q # inside \<and> is_quote q \<and> list_all not_quote inside \<and> s' = []"
proof -
  from assms obtain s1 s2 where a: "accepts (Atom is_quote) s s1"
    and b: "accepts (Star (Atom not_quote)) s1 s2" and c: "accepts Eol s2 s'"
    by (auto elim!: accepts_SeqE)
  from c have e: "s2 = []" "s' = []" by (auto elim: accepts_EolE)
  from a obtain q where q: "s = q # s1" "is_quote q" by (auto elim: accepts_AtomE)
  from accepts_star_atom [OF b refl] e obtain u where "s1 = u" "list_all not_quote u" by auto
  with q e show ?thesis by auto
qed

lemma accepts_colon_tail:
  assumes "accepts (Seq (Atom is_quote) (Seq (Star (Atom not_quote))
             (Seq (lit '':'') (Seq (Star (Atom not_quote)) Eol)))) s s'"
  shows "CHR 0x3A \<in> set s \<and> s' = []"
proof -
  from assms obtain s1 s2 s3 s4 where a: "accepts (Atom is_quote) s s1"
    and b: "accepts (Star (Atom not_quote)) s1 s2" and c: "accepts (lit '':'') s2 s3"
    and d: "accepts (Star (Atom not_quote)) s3 s4" and e: "accepts Eol s4 s'"
    by (auto elim!: accepts_SeqE)
  from e have s': "s' = []" by (auto elim: accepts_EolE)
  from accepts_lit [OF c] have "s2 = '':'' @ s3" .
  moreover from accepts_suffix [OF b] obtain u where "s1 = u @ s2" ..
  moreover from a obtain q where "s = q # s1" by (auto elim: accepts_AtomE)
  ultimately show ?thesis using s' by auto
qed

lemma match_at_accepts:
  assumes "match_at re input i = Some m"
  shows "\<exists>rest. drop i input = matched m @ rest \<and> accepts re (matched m @ rest) rest"
proof -
  from assms obtain rest caps tl where ms: "ms re (drop i input) [] = (rest, caps) # tl"
    and m: "m = \<lparr>index = i, matched = take (length input - i - length rest) (drop i input),
                 groups = caps\<rparr>"
    by (auto simp: match_at_def split: list.splits)
  from ms have "(rest, caps) \<in> set (ms re (drop i input) [])" by simp
  then have acc: "accepts re (drop i input) rest" by (rule ms_sound)
  from accepts_suffix [OF acc] obtain u where u: "drop i input = u @ rest" ..
  then have "length input - i = length u + length rest"
    by (metis length_append length_drop)
  then have "matched m = u" by (simp add: m u)
  with u acc show ?thesis by auto
qed

lemma exec_from_accepts:
  "exec_from re input i = Some m \<Longrightarrow>
     \<exists>rest. drop (index m) input = matched m @ rest \<and> accepts re (matched m @ rest) rest"
proof (induction re input i rule: exec_from.induct)
  case (1 re input i)
  show ?case
  proof (cases "match_at re input i")
    case None
    with "1.prems" have le: "\<not> length input < i" and rec: "exec_from re input (Suc i) = Some m"
      by (auto simp: exec_from.simps [of re input i] split: if_splits)
    from "1.IH" [OF le None rec] show ?thesis .
  next
    case (Some m')
    with "1.prems" have "m' = m"
      by (auto simp: exec_from.simps [of re input i] split: if_splits)
    with match_at_accepts [OF Some] match_at_bounds [OF Some] show ?thesis by simp
  qed
qed

text \<open>A span that \<open>matchBefore\<close> returns is a text that its pattern accepts as a whole.\<close>

lemma matchBefore_accepts:
  assumes "matchBefore (makeContext_limit text cursorOffset e limit) re = Some s"
  shows "accepts re (text' s) []"
proof -
  define w
    where "w = slice text (clamp_offset text cursorOffset - limit) (clamp_offset text cursorOffset)"
  from assms obtain m where lh: "last_hit w (iteration_matches re w 0) = Some m"
    and s: "s = span_of (clamp_offset text cursorOffset - limit) m"
    unfolding matchBefore_last_hit w_def [symmetric] by auto
  from last_hit_Some [OF lh] have mem: "m \<in> set (iteration_matches re w 0)"
    and fin: "index m + length (matched m) = length w" by (auto simp: ends_at_end_def)
  from iteration_matches_exec [OF mem] obtain j where ex: "exec_from re w j = Some m" ..
  from exec_from_accepts [OF ex] obtain rest where d: "drop (index m) w = matched m @ rest"
    and acc: "accepts re (matched m @ rest) rest" by blast
  from d have "length w - index m = length (matched m) + length rest"
    by (metis length_append length_drop)
  with fin have "length rest = 0" by arith
  then have "rest = []" by simp
  with acc show ?thesis by (simp add: s span_of_def)
qed

subsection \<open>The last quote and the last colon of a span\<close>

lemma lastIndexOf_here: "c \<notin> set inside \<Longrightarrow> lastIndexOf (pre @ c # inside) c = int (length pre)"
proof -
  assume n: "c \<notin> set inside"
  then have "takeWhile (\<lambda>x. x \<noteq> c) (rev inside @ c # rev pre) = rev inside"
    by (subst takeWhile_append2) auto
  then show ?thesis by (simp add: lastIndexOf_def)
qed

lemma lastIndexOf_skip:
  "c \<notin> set inside \<Longrightarrow> q \<noteq> c \<Longrightarrow> lastIndexOf (pre @ q # inside) c = lastIndexOf pre c"
proof -
  assume n: "c \<notin> set inside" and q: "q \<noteq> c"
  then have "takeWhile (\<lambda>x. x \<noteq> c) (rev inside @ q # rev pre)
               = rev inside @ q # takeWhile (\<lambda>x. x \<noteq> c) (rev pre)"
    by (subst takeWhile_append2) auto
  with n q show ?thesis by (simp add: lastIndexOf_def)
qed

lemma lastIndexOf_less: "lastIndexOf s c < int (length s)"
  by (simp add: lastIndexOf_def)

lemma lastQuoteIdx_shape:
  assumes "is_quote q" "list_all not_quote inside"
  shows "lastQuoteIdx (pre @ q # inside) = int (length pre)"
proof -
  from assms(2) have n: "DQUOTE \<notin> set inside" "SQUOTE \<notin> set inside"
    by (auto simp: list_all_iff not_quote_def is_quote_def)
  from assms(1) consider "q = DQUOTE" | "q = SQUOTE" by (auto simp: is_quote_def)
  then show ?thesis
  proof cases
    case 1
    with n lastIndexOf_less [of pre SQUOTE] show ?thesis
      by (simp add: lastQuoteIdx_def lastIndexOf_here lastIndexOf_skip)
  next
    case 2
    with n lastIndexOf_less [of pre DQUOTE] show ?thesis
      by (simp add: lastQuoteIdx_def lastIndexOf_here lastIndexOf_skip)
  qed
qed

lemma after_last_quote_shape:
  assumes "is_quote q" "list_all not_quote inside"
  shows "lastQuoteIdx (pre @ q # inside) \<noteq> - 1 \<and> after_last_quote (pre @ q # inside) = inside"
proof -
  have n1: "nat (int (length pre) + 1) = Suc (length pre)" by linarith
  show ?thesis
    by (simp add: after_last_quote_def lastQuoteIdx_shape [OF assms] n1)
qed

lemma lastIndexOf_props:
  assumes "c \<in> set s"
  shows "\<exists>k. lastIndexOf s c = int k \<and> k < length s \<and> s ! k = c \<and> c \<notin> set (drop (Suc k) s)"
proof -
  from split_list_last [OF assms] obtain pre post
    where s: "s = pre @ c # post" and n: "c \<notin> set post"
    by blast
  have "lastIndexOf s c = int (length pre)"
    unfolding s using n by (rule lastIndexOf_here)
  moreover have "length pre < length s" "s ! length pre = c"
    "c \<notin> set (drop (Suc (length pre)) s)"
    using n by (simp_all add: s)
  ultimately show ?thesis by blast
qed

lemma includes_str_sublist: "includes_str name frag = sublist frag name"
  by (induction name) (auto simp: sublist_Cons_right)

text \<open>
  The spans of the patterns with a quote: a head, the quote, and a text without quotes;
  after the colon patterns, a text with a colon.
\<close>

lemma quoted_call_shape:
  assumes "accepts (Seq (lit name) (Seq (Star (Atom is_space))
             (Seq (Atom is_quote) (Seq (Star (Atom not_quote)) Eol)))) txt []"
  shows "\<exists>pre q inside. txt = pre @ q # inside \<and> is_quote q \<and> list_all not_quote inside"
proof -
  from accepts_Seq_tail [OF assms] obtain u2 v2 where 2: "txt = u2 @ v2"
    and a2: "accepts (Seq (Star (Atom is_space))
      (Seq (Atom is_quote) (Seq (Star (Atom not_quote)) Eol))) v2 []" by blast
  from accepts_Seq_tail [OF a2] obtain u3 v3 where 3: "v2 = u3 @ v3"
    and a3: "accepts (Seq (Atom is_quote) (Seq (Star (Atom not_quote)) Eol)) v3 []" by blast
  from accepts_quoted_tail [OF a3] obtain q inside
    where "v3 = q # inside" "is_quote q" "list_all not_quote inside"
    by blast
  with 2 3 have "txt = (u2 @ u3) @ q # inside \<and> is_quote q \<and> list_all not_quote inside"
    by simp
  then show ?thesis by blast
qed

lemma sound_shape:
  assumes "accepts SOUND_WITH_QUOTES_REGEX txt []"
  shows "\<exists>pre q inside. txt = pre @ q # inside \<and> is_quote q \<and> list_all not_quote inside"
proof -
  from assms have "accepts (Seq (Grp 1 (Alt (lit ''s'') (lit ''sound'')))
      (Seq (lit ''('') (Seq (Star (Atom is_space))
        (Seq (Atom is_quote) (Seq (Star (Atom not_quote)) Eol))))) txt []"
    by (simp add: SOUND_WITH_QUOTES_REGEX_def)
  from accepts_Seq_tail [OF this] obtain u1 v1 where 1: "txt = u1 @ v1"
    and a1: "accepts (Seq (lit ''('') (Seq (Star (Atom is_space))
      (Seq (Atom is_quote) (Seq (Star (Atom not_quote)) Eol)))) v1 []" by blast
  from quoted_call_shape [OF a1] obtain pre q inside
    where "v1 = pre @ q # inside" "is_quote q" "list_all not_quote inside" by blast
  with 1 have "txt = (u1 @ pre) @ q # inside \<and> is_quote q \<and> list_all not_quote inside"
    by simp
  then show ?thesis by blast
qed

lemma bank_shape:
  assumes "accepts BANK_WITH_QUOTES_REGEX txt []"
  shows "\<exists>pre q inside. txt = pre @ q # inside \<and> is_quote q \<and> list_all not_quote inside"
  using assms unfolding BANK_WITH_QUOTES_REGEX_def seqs.simps by (rule quoted_call_shape)

lemma mode_pre_shape:
  assumes "accepts MODE_PRE_COLON_REGEX txt []"
  shows "\<exists>pre q inside. txt = pre @ q # inside \<and> is_quote q \<and> list_all not_quote inside"
  using assms unfolding MODE_PRE_COLON_REGEX_def seqs.simps by (rule quoted_call_shape)

lemma colon_call_shape:
  assumes "accepts (Seq (lit name) (Seq (Star (Atom is_space))
      (Seq (Atom is_quote) (Seq (Star (Atom not_quote))
             (Seq (lit '':'') (Seq (Star (Atom not_quote)) Eol)))))) txt []"
  shows "CHR 0x3A \<in> set txt"
proof -
  from accepts_Seq_tail [OF assms] obtain u2 v2 where 2: "txt = u2 @ v2"
    and a2: "accepts (Seq (Star (Atom is_space))
      (Seq (Atom is_quote) (Seq (Star (Atom not_quote))
             (Seq (lit '':'') (Seq (Star (Atom not_quote)) Eol))))) v2 []" by blast
  from accepts_Seq_tail [OF a2] obtain u3 v3 where 3: "v2 = u3 @ v3"
    and a3: "accepts (Seq (Atom is_quote) (Seq (Star (Atom not_quote))
             (Seq (lit '':'') (Seq (Star (Atom not_quote)) Eol)))) v3 []" by blast
  from accepts_colon_tail [OF a3] 2 3 show ?thesis by simp
qed

lemma scale_after_shape: "accepts SCALE_AFTER_COLON_REGEX txt [] \<Longrightarrow> CHR 0x3A \<in> set txt"
  unfolding SCALE_AFTER_COLON_REGEX_def seqs.simps by (rule colon_call_shape)

lemma mode_after_shape: "accepts MODE_AFTER_COLON_REGEX txt [] \<Longrightarrow> CHR 0x3A \<in> set txt"
  unfolding MODE_AFTER_COLON_REGEX_def seqs.simps by (rule colon_call_shape)

text \<open>Where the last colon of a span that ends at the cursor stands in the text.\<close>

lemma last_colon_in_text:
  assumes m: "matchBefore (makeContext_limit text cur e limit) re = Some m"
    and c: "CHR 0x3A \<in> set (text' m)"
  shows "\<exists>k. lastIndexOf (text' m) (CHR 0x3A) = int k \<and>
             from' m + k < clamp_offset text cur \<and> text ! (from' m + k) = CHR 0x3A \<and>
             drop (Suc k) (text' m) = slice text (Suc (from' m + k)) (clamp_offset text cur) \<and>
             CHR 0x3A \<notin> set (slice text (Suc (from' m + k)) (clamp_offset text cur))"
proof -
  define t where "t = clamp_offset text cur"
  have t: "t \<le> length text" by (simp add: t_def clamp_offset_def)
  from matchBefore_span [OF m] have to: "to' m = t" and le: "from' m \<le> t"
    and tx: "text' m = slice text (from' m) t" by (simp_all add: t_def)
  from lastIndexOf_props [OF c] obtain k where k: "lastIndexOf (text' m) (CHR 0x3A) = int k"
    "k < length (text' m)" "text' m ! k = CHR 0x3A" "CHR 0x3A \<notin> set (drop (Suc k) (text' m))"
    by blast
  have len: "length (text' m) = t - from' m" using t by (simp add: tx slice_def)
  have lt: "from' m + k < t" using k(2) len by simp
  have nth: "text ! (from' m + k) = CHR 0x3A"
    using k(3) k(2) len t by (simp add: tx slice_def)
  have dr: "drop (Suc k) (text' m) = slice text (Suc (from' m + k)) t"
    by (simp add: tx slice_def drop_take add.commute)
  from k(1) lt nth dr k(4) show ?thesis
    unfolding t_def [symmetric] by auto
qed

lemmas vocabulary_defs = after_last_quote_def pitch_fragment_def mode_fragment_def

subsection \<open>Sound and bank handlers\<close>

text \<open>
  Claim C10 (two filters). At a call-site \<open>sound("...\<close> or \<open>s("...\<close>, that is, when the pattern
  without quotes has no match and the pattern with quotes has the span \<open>m\<close>, the span holds a
  quote, and with the fragment taken from the text after its last quote the sound handler
  returns exactly the sorted sound names that hold the fragment as a substring, from the
  cursor minus the length of the fragment. At a call-site \<open>bank("...\<close> the bank handler
  returns exactly the sorted bank names that start with the whole text after the last quote.
\<close>

theorem soundHandler_bankHandler_filters:
  "(matchBefore (makeContext text cur e) SOUND_NO_QUOTES_REGEX = None \<and>
    matchBefore (makeContext text cur e) SOUND_WITH_QUOTES_REGEX = Some m \<longrightarrow>
      lastQuoteIdx (text' m) \<noteq> - 1 \<and>
      list_all not_quote (after_last_quote (text' m)) \<and>
      soundHandler (makeContext text cur e) sources =
        Some \<lparr>from_offset =
                 clamp_offset text cur - length (extractSoundFragment (after_last_quote (text' m))),
              options = map (\<lambda>l. labelled l ''sound'')
                (sort (filter (\<lambda>name. sublist (extractSoundFragment (after_last_quote (text' m))) name)
                   (sound_names sources)))\<rparr>) \<and>
   (matchBefore (makeContext text cur e) BANK_NO_QUOTES_REGEX = None \<and>
    matchBefore (makeContext text cur e) BANK_WITH_QUOTES_REGEX = Some b \<longrightarrow>
      lastQuoteIdx (text' b) \<noteq> - 1 \<and>
      list_all not_quote (after_last_quote (text' b)) \<and>
      bankHandler (makeContext text cur e) sources =
        Some \<lparr>from_offset = clamp_offset text cur - length (after_last_quote (text' b)),
              options = map (\<lambda>l. labelled l ''bank'')
                (sort (filter (\<lambda>name. prefix (after_last_quote (text' b)) name)
                   (bank_names sources)))\<rparr>)"
proof (intro conjI impI)
  assume h: "matchBefore (makeContext text cur e) SOUND_NO_QUOTES_REGEX = None \<and>
    matchBefore (makeContext text cur e) SOUND_WITH_QUOTES_REGEX = Some m"
  then have m: "matchBefore (makeContext_limit text cur e 8192) SOUND_WITH_QUOTES_REGEX = Some m"
    by (simp add: makeContext_def)
  from matchBefore_span [OF m] have to: "to' m = clamp_offset text cur" by simp
  from sound_shape [OF matchBefore_accepts [OF m]] obtain pre q inside
    where sh: "text' m = pre @ q # inside" "is_quote q" "list_all not_quote inside" by blast
  from after_last_quote_shape [OF sh(2,3), of pre]
  have qi: "lastQuoteIdx (text' m) \<noteq> - 1" and al: "after_last_quote (text' m) = inside"
    by (simp_all add: sh(1))
  from qi show "lastQuoteIdx (text' m) \<noteq> - 1" .
  from al sh(3) show "list_all not_quote (after_last_quote (text' m))" by simp
  show "soundHandler (makeContext text cur e) sources =
        Some \<lparr>from_offset =
                 clamp_offset text cur - length (extractSoundFragment (after_last_quote (text' m))),
              options = map (\<lambda>l. labelled l ''sound'')
                (sort (filter (\<lambda>name. sublist (extractSoundFragment (after_last_quote (text' m))) name)
                   (sound_names sources)))\<rparr>"
    using h qi
    by (simp add: soundHandler_def to Let_def includes_str_sublist sound_names_def
        after_last_quote_def filter_sort)
next
  assume h: "matchBefore (makeContext text cur e) BANK_NO_QUOTES_REGEX = None \<and>
    matchBefore (makeContext text cur e) BANK_WITH_QUOTES_REGEX = Some b"
  then have m: "matchBefore (makeContext_limit text cur e 8192) BANK_WITH_QUOTES_REGEX = Some b"
    by (simp add: makeContext_def)
  from matchBefore_span [OF m] have to: "to' b = clamp_offset text cur" by simp
  from bank_shape [OF matchBefore_accepts [OF m]] obtain pre q inside
    where sh: "text' b = pre @ q # inside" "is_quote q" "list_all not_quote inside" by blast
  from after_last_quote_shape [OF sh(2,3), of pre]
  have qi: "lastQuoteIdx (text' b) \<noteq> - 1" and al: "after_last_quote (text' b) = inside"
    by (simp_all add: sh(1))
  from qi show "lastQuoteIdx (text' b) \<noteq> - 1" .
  from al sh(3) show "list_all not_quote (after_last_quote (text' b))" by simp
  show "bankHandler (makeContext text cur e) sources =
        Some \<lparr>from_offset = clamp_offset text cur - length (after_last_quote (text' b)),
              options = map (\<lambda>l. labelled l ''bank'')
                (sort (filter (\<lambda>name. prefix (after_last_quote (text' b)) name)
                   (bank_names sources)))\<rparr>"
    using h qi
    by (simp add: bankHandler_def to Let_def bank_names_def after_last_quote_def filter_sort)
qed

text \<open>
  The theorem at work with the samples of the parity test: \<open>gabba\<close> holds \<open>b\<close> without
  starting with it and is offered by the sound handler; \<open>bd\<close> holds \<open>d\<close> without starting with
  it and is not offered by the bank handler.
\<close>

theorem soundHandler_bankHandler_filters_witness:
  \<open>soundHandler (makeContext ''sound("b'' 8 True) example_sources =
     Some \<lparr>from_offset = 7,
           options = map (\<lambda>l. labelled l ''sound'') [''bd'', ''bd_808'', ''gabba'']\<rparr> \<and>
   bankHandler (makeContext ''bank("d'' 7 True) example_sources =
     Some \<lparr>from_offset = 6, options = map (\<lambda>l. labelled l ''bank'') [''drum'']\<rparr>\<close>
proof -
  have s: \<open>matchBefore (makeContext ''sound("b'' 8 True) SOUND_NO_QUOTES_REGEX = None\<close>
    \<open>matchBefore (makeContext ''sound("b'' 8 True) SOUND_WITH_QUOTES_REGEX
       = Some \<lparr>from' = 0, to' = 8, text' = ''sound("b''\<rparr>\<close>
    by (simp_all add: regex_defs class_defs engine_defs)
  have b: \<open>matchBefore (makeContext ''bank("d'' 7 True) BANK_NO_QUOTES_REGEX = None\<close>
    \<open>matchBefore (makeContext ''bank("d'' 7 True) BANK_WITH_QUOTES_REGEX
       = Some \<lparr>from' = 0, to' = 7, text' = ''bank("d''\<rparr>\<close>
    by (simp_all add: regex_defs class_defs engine_defs)
  have fr: \<open>extractSoundFragment ''b'' = ''b''\<close>
    by (simp add: extractSoundFragment_def regex_defs class_defs engine_defs)
  have al: \<open>after_last_quote ''sound("b'' = ''b''\<close> \<open>after_last_quote ''bank("d'' = ''d''\<close>
    by (simp_all add: after_last_quote_def lastQuoteIdx_def lastIndexOf_def)
  have 1: \<open>soundHandler (makeContext ''sound("b'' 8 True) example_sources =
     Some \<lparr>from_offset = 7,
           options = map (\<lambda>l. labelled l ''sound'') [''bd'', ''bd_808'', ''gabba'']\<rparr>\<close>
    using soundHandler_bankHandler_filters
      [of \<open>''sound("b''\<close> 8 True \<open>\<lparr>from' = 0, to' = 8, text' = ''sound("b''\<rparr>\<close> example_sources]
      s
    by (simp add: al fr includes_str_sublist [symmetric] sound_names_def example_sources_def
        clamp_offset_def)
  have 2: \<open>bankHandler (makeContext ''bank("d'' 7 True) example_sources =
     Some \<lparr>from_offset = 6, options = map (\<lambda>l. labelled l ''bank'') [''drum'']\<rparr>\<close>
    using soundHandler_bankHandler_filters
      [of \<open>''bank("d''\<close> 7 True _ example_sources \<open>\<lparr>from' = 0, to' = 7, text' = ''bank("d''\<rparr>\<close>]
      b
    by (simp add: al bank_names_def example_sources_def clamp_offset_def)
  from 1 2 show ?thesis by (intro conjI)
qed

subsection \<open>Scale and mode handlers\<close>

text \<open>
  Claim C3 (two phases), as stated: at \<open>scale("...\<close> and at \<open>mode("...\<close> alike, pitch names
  before the colon and only on an explicit request, mode or scale names after it. The mode
  handler does the opposite: after the colon of \<open>mode("duck:\<close> it offers the pitch names and
  no mode name, and before a colon, in \<open>mode("d\<close>, it offers the mode name \<open>duck\<close> to a request
  that is not explicit.
\<close>

theorem modeHandler_after_colon_offers_pitches:
  \<open>\<exists>r. modeHandler (makeContext ''mode("duck:'' 11 True) = Some r \<and>
       from_offset r = 11 \<and>
       options r = map (\<lambda>p. labelled p ''pitch'') pitchNames \<and>
       set (map label (options r)) \<inter> set (map label modeCompletions) = {} \<and>
       modeHandler (makeContext ''mode("d'' 7 False)
         = Some \<lparr>from_offset = 6, options = [labelled ''duck'' ''mode'']\<rparr>\<close>
  by (simp add: eval_defs)

text \<open>
  Claim C3, amended. The call-site and its phase are what the patterns of the handler say:
  the pattern without quotes has no match, and the after-colon pattern has the span \<open>m\<close>
  (after a colon), or it has none and the pre-colon pattern has the span \<open>m\<close> (before a colon).
  After a colon, the result starts one position after the last colon before the cursor; the
  scale handler offers the scale names that start with the text after that colon, the mode
  handler the pitch names that start with it, case-insensitively. Before a colon, the scale
  handler offers the pitch names that start with the pitch fragment, case-insensitively, to
  an explicit request, and an empty list at the cursor otherwise; the mode handler offers
  the mode names that start with the fragment, explicit or not.
\<close>

theorem scale_mode_two_phase:
  "(matchBefore (makeContext text cur e) SCALE_NO_QUOTES_REGEX = None \<and>
    matchBefore (makeContext text cur e) SCALE_AFTER_COLON_REGEX = Some m \<longrightarrow>
      (\<exists>k. k < clamp_offset text cur \<and> text ! k = CHR 0x3A \<and>
           CHR 0x3A \<notin> set (slice text (Suc k) (clamp_offset text cur)) \<and>
           scaleHandler (makeContext text cur e) =
             Some \<lparr>from_offset = Suc k,
                   options = map (\<lambda>s. s\<lparr>apply' := Some (spaces_to_colon (label s))\<rparr>)
                     (filter (\<lambda>s. prefix (slice text (Suc k) (clamp_offset text cur)) (label s))
                        scaleCompletions)\<rparr>)) \<and>
   (matchBefore (makeContext text cur e) SCALE_NO_QUOTES_REGEX = None \<and>
    matchBefore (makeContext text cur e) SCALE_AFTER_COLON_REGEX = None \<and>
    matchBefore (makeContext text cur e) SCALE_PRE_COLON_REGEX = Some m \<and>
    CHR 0x3A \<notin> set (text' m) \<longrightarrow>
      scaleHandler (makeContext text cur e) =
        (if e then
           Some \<lparr>from_offset = clamp_offset text cur - length (pitch_fragment (text' m)),
                 options = map (\<lambda>p. labelled p ''pitch'')
                   (filter (\<lambda>p. prefix (toLowerCase (pitch_fragment (text' m))) (toLowerCase p))
                      pitchNames)\<rparr>
         else Some \<lparr>from_offset = clamp_offset text cur, options = []\<rparr>)) \<and>
   (matchBefore (makeContext text cur e) MODE_NO_QUOTES_REGEX = None \<and>
    matchBefore (makeContext text cur e) MODE_AFTER_COLON_REGEX = Some m \<longrightarrow>
      (\<exists>k. k < clamp_offset text cur \<and> text ! k = CHR 0x3A \<and>
           CHR 0x3A \<notin> set (slice text (Suc k) (clamp_offset text cur)) \<and>
           modeHandler (makeContext text cur e) =
             Some \<lparr>from_offset = Suc k,
                   options = map (\<lambda>p. labelled p ''pitch'')
                     (filter (\<lambda>p. prefix (toLowerCase (slice text (Suc k) (clamp_offset text cur)))
                                 (toLowerCase p))
                        pitchNames)\<rparr>)) \<and>
   (matchBefore (makeContext text cur e) MODE_NO_QUOTES_REGEX = None \<and>
    matchBefore (makeContext text cur e) MODE_AFTER_COLON_REGEX = None \<and>
    matchBefore (makeContext text cur e) MODE_PRE_COLON_REGEX = Some m \<longrightarrow>
      lastQuoteIdx (text' m) \<noteq> - 1 \<and>
      modeHandler (makeContext text cur e) =
        Some \<lparr>from_offset =
                 clamp_offset text cur - length (mode_fragment (after_last_quote (text' m))),
              options = filter (\<lambda>opt. prefix (mode_fragment (after_last_quote (text' m))) (label opt))
                          modeCompletions\<rparr>)"
proof (intro conjI impI)
  assume h: "matchBefore (makeContext text cur e) SCALE_NO_QUOTES_REGEX = None \<and>
    matchBefore (makeContext text cur e) SCALE_AFTER_COLON_REGEX = Some m"
  then have m: "matchBefore (makeContext_limit text cur e 8192) SCALE_AFTER_COLON_REGEX = Some m"
    by (simp add: makeContext_def)
  have c: "CHR 0x3A \<in> set (text' m)"
    by (rule scale_after_shape [OF matchBefore_accepts [OF m]])
  from last_colon_in_text [OF m c] obtain k where k: "lastIndexOf (text' m) (CHR 0x3A) = int k"
    "from' m + k < clamp_offset text cur" "text ! (from' m + k) = CHR 0x3A"
    "drop (Suc k) (text' m) = slice text (Suc (from' m + k)) (clamp_offset text cur)"
    "CHR 0x3A \<notin> set (slice text (Suc (from' m + k)) (clamp_offset text cur))" by blast
  have n1: "nat (int k + 1) = Suc k" by linarith
  have "scaleHandler (makeContext text cur e) =
             Some \<lparr>from_offset = Suc (from' m + k),
                   options = map (\<lambda>s. s\<lparr>apply' := Some (spaces_to_colon (label s))\<rparr>)
                     (filter (\<lambda>s. prefix (slice text (Suc (from' m + k)) (clamp_offset text cur))
                                 (label s))
                        scaleCompletions)\<rparr>"
    using h by (simp add: scaleHandler_def Let_def k(1) n1 k(4))
  with k(2,3,5) show "\<exists>k. k < clamp_offset text cur \<and> text ! k = CHR 0x3A \<and>
           CHR 0x3A \<notin> set (slice text (Suc k) (clamp_offset text cur)) \<and>
           scaleHandler (makeContext text cur e) =
             Some \<lparr>from_offset = Suc k,
                   options = map (\<lambda>s. s\<lparr>apply' := Some (spaces_to_colon (label s))\<rparr>)
                     (filter (\<lambda>s. prefix (slice text (Suc k) (clamp_offset text cur)) (label s))
                        scaleCompletions)\<rparr>" by blast
next
  assume h: "matchBefore (makeContext text cur e) SCALE_NO_QUOTES_REGEX = None \<and>
    matchBefore (makeContext text cur e) SCALE_AFTER_COLON_REGEX = None \<and>
    matchBefore (makeContext text cur e) SCALE_PRE_COLON_REGEX = Some m \<and>
    CHR 0x3A \<notin> set (text' m)"
  then have m: "matchBefore (makeContext_limit text cur e 8192) SCALE_PRE_COLON_REGEX = Some m"
    by (simp add: makeContext_def)
  from matchBefore_span [OF m] have to: "to' m = clamp_offset text cur" by simp
  have ex: "explicit (makeContext text cur e) = e"
    by (simp add: makeContext_def makeContext_limit_def Let_def)
  show "scaleHandler (makeContext text cur e) =
        (if e then
           Some \<lparr>from_offset = clamp_offset text cur - length (pitch_fragment (text' m)),
                 options = map (\<lambda>p. labelled p ''pitch'')
                   (filter (\<lambda>p. prefix (toLowerCase (pitch_fragment (text' m))) (toLowerCase p))
                      pitchNames)\<rparr>
         else Some \<lparr>from_offset = clamp_offset text cur, options = []\<rparr>)"
    using h by (simp add: scaleHandler_def Let_def to ex pitch_fragment_def)
next
  assume h: "matchBefore (makeContext text cur e) MODE_NO_QUOTES_REGEX = None \<and>
    matchBefore (makeContext text cur e) MODE_AFTER_COLON_REGEX = Some m"
  then have m: "matchBefore (makeContext_limit text cur e 8192) MODE_AFTER_COLON_REGEX = Some m"
    by (simp add: makeContext_def)
  have c: "CHR 0x3A \<in> set (text' m)"
    by (rule mode_after_shape [OF matchBefore_accepts [OF m]])
  from last_colon_in_text [OF m c] obtain k where k: "lastIndexOf (text' m) (CHR 0x3A) = int k"
    "from' m + k < clamp_offset text cur" "text ! (from' m + k) = CHR 0x3A"
    "drop (Suc k) (text' m) = slice text (Suc (from' m + k)) (clamp_offset text cur)"
    "CHR 0x3A \<notin> set (slice text (Suc (from' m + k)) (clamp_offset text cur))" by blast
  have n1: "nat (int k + 1) = Suc k" by linarith
  have "modeHandler (makeContext text cur e) =
             Some \<lparr>from_offset = Suc (from' m + k),
                   options = map (\<lambda>p. labelled p ''pitch'')
                     (filter (\<lambda>p. prefix
                         (toLowerCase (slice text (Suc (from' m + k)) (clamp_offset text cur)))
                         (toLowerCase p))
                        pitchNames)\<rparr>"
    using h by (simp add: modeHandler_def Let_def k(1) n1 k(4))
  with k(2,3,5) show "\<exists>k. k < clamp_offset text cur \<and> text ! k = CHR 0x3A \<and>
           CHR 0x3A \<notin> set (slice text (Suc k) (clamp_offset text cur)) \<and>
           modeHandler (makeContext text cur e) =
             Some \<lparr>from_offset = Suc k,
                   options = map (\<lambda>p. labelled p ''pitch'')
                     (filter (\<lambda>p. prefix (toLowerCase (slice text (Suc k) (clamp_offset text cur)))
                                 (toLowerCase p))
                        pitchNames)\<rparr>" by blast
next
  assume h: "matchBefore (makeContext text cur e) MODE_NO_QUOTES_REGEX = None \<and>
    matchBefore (makeContext text cur e) MODE_AFTER_COLON_REGEX = None \<and>
    matchBefore (makeContext text cur e) MODE_PRE_COLON_REGEX = Some m"
  then have m: "matchBefore (makeContext_limit text cur e 8192) MODE_PRE_COLON_REGEX = Some m"
    by (simp add: makeContext_def)
  from matchBefore_span [OF m] have to: "to' m = clamp_offset text cur" by simp
  from mode_pre_shape [OF matchBefore_accepts [OF m]] obtain pre q inside
    where sh: "text' m = pre @ q # inside" "is_quote q" "list_all not_quote inside" by blast
  from after_last_quote_shape [OF sh(2,3), of pre]
  have qi: "lastQuoteIdx (text' m) \<noteq> - 1" by (simp add: sh(1))
  from qi show "lastQuoteIdx (text' m) \<noteq> - 1" .
  show "modeHandler (makeContext text cur e) =
        Some \<lparr>from_offset =
                 clamp_offset text cur - length (mode_fragment (after_last_quote (text' m))),
              options = filter (\<lambda>opt. prefix (mode_fragment (after_last_quote (text' m))) (label opt))
                          modeCompletions\<rparr>"
    using h qi by (simp add: modeHandler_def Let_def to mode_fragment_def after_last_quote_def)
qed

theorem scale_mode_two_phase_witness:
  \<open>scaleHandler (makeContext ''scale("C:ma'' 11 False) = Some \<lparr>from_offset = 9, options = []\<rparr> \<and>
   scaleHandler (makeContext ''scale("e'' 8 True) =
     Some \<lparr>from_offset = 7, options = map (\<lambda>p. labelled p ''pitch'') [''Eb'', ''E'', ''E#'']\<rparr> \<and>
   scaleHandler (makeContext ''scale("e'' 8 False) = Some \<lparr>from_offset = 8, options = []\<rparr> \<and>
   modeHandler (makeContext ''mode("duck:c'' 12 False) =
     Some \<lparr>from_offset = 11, options = map (\<lambda>p. labelled p ''pitch'') [''C'', ''C#'', ''Cb'']\<rparr> \<and>
   modeHandler (makeContext ''mode("d'' 7 False) =
     Some \<lparr>from_offset = 6, options = [labelled ''duck'' ''mode'']\<rparr>\<close>
proof -
  have 1: \<open>scaleHandler (makeContext ''scale("C:ma'' 11 False) = Some \<lparr>from_offset = 9, options = []\<rparr>\<close>
    using scale_mode_two_phase
      [of \<open>''scale("C:ma''\<close> 11 False \<open>\<lparr>from' = 0, to' = 11, text' = ''scale("C:ma''\<rparr>\<close>]
    by (simp add: eval_defs vocabulary_defs)
  have 2: \<open>scaleHandler (makeContext ''scale("e'' 8 True) =
     Some \<lparr>from_offset = 7, options = map (\<lambda>p. labelled p ''pitch'') [''Eb'', ''E'', ''E#'']\<rparr>\<close>
    using scale_mode_two_phase
      [of \<open>''scale("e''\<close> 8 True \<open>\<lparr>from' = 0, to' = 8, text' = ''scale("e''\<rparr>\<close>]
    by (simp add: eval_defs vocabulary_defs)
  have 3: \<open>scaleHandler (makeContext ''scale("e'' 8 False) = Some \<lparr>from_offset = 8, options = []\<rparr>\<close>
    using scale_mode_two_phase
      [of \<open>''scale("e''\<close> 8 False \<open>\<lparr>from' = 0, to' = 8, text' = ''scale("e''\<rparr>\<close>]
    by (simp add: eval_defs vocabulary_defs)
  have 4: \<open>modeHandler (makeContext ''mode("duck:c'' 12 False) =
     Some \<lparr>from_offset = 11, options = map (\<lambda>p. labelled p ''pitch'') [''C'', ''C#'', ''Cb'']\<rparr>\<close>
    using scale_mode_two_phase
      [of \<open>''mode("duck:c''\<close> 12 False \<open>\<lparr>from' = 0, to' = 12, text' = ''mode("duck:c''\<rparr>\<close>]
    by (simp add: eval_defs vocabulary_defs)
  have 5: \<open>modeHandler (makeContext ''mode("d'' 7 False) =
     Some \<lparr>from_offset = 6, options = [labelled ''duck'' ''mode'']\<rparr>\<close>
    using scale_mode_two_phase
      [of \<open>''mode("d''\<close> 7 False \<open>\<lparr>from' = 0, to' = 7, text' = ''mode("d''\<rparr>\<close>]
    by (simp add: eval_defs vocabulary_defs)
  from 1 2 3 4 5 show ?thesis by (intro conjI)
qed

end
